theory Spec2Isabelle
  imports Main "HOL-Library.Word"
begin

unbundle bit_operations_syntax

section \<open>Target platform and memory\<close>

text \<open>
  The embedding of \<^verbatim>\<open>fio_str.h\<close> fixes an LP64 little-endian target (x86-64,
  AArch64): \<^verbatim>\<open>size_t\<close>, \<^verbatim>\<open>intptr_t\<close> and pointers are 64 bits, so
  \<^verbatim>\<open>sizeof(fio_str_s)\<close> is 32, the array \<^verbatim>\<open>reserved\<close> has 6 bytes and starts at
  offset 2, and \<^verbatim>\<open>FIO_STR_SMALL_CAPA\<close> is 30.

  A signed \<^verbatim>\<open>intptr_t\<close> is the same 64-bit word read with \<open>sint\<close>.
\<close>

type_synonym byte = "8 word"
type_synonym size_t = "64 word"
type_synonym intptr_t = "64 word"

text \<open>The eight bytes of a 64-bit value in memory order, and back.\<close>

definition le_bytes :: "size_t \<Rightarrow> byte list" where
  "le_bytes v = map (\<lambda>i. ucast (drop_bit (8 * i) v)) [0..<8]"

definition le_word :: "byte list \<Rightarrow> size_t" where
  "le_word bs = foldr (\<lambda>b acc. ucast b OR push_bit 8 acc) bs 0"

text \<open>\<open>poke bs off new\<close> overwrites \<open>length new\<close> bytes of \<open>bs\<close> from offset \<open>off\<close>;
  its callers check the bounds first.\<close>

definition poke :: "byte list \<Rightarrow> nat \<Rightarrow> byte list \<Rightarrow> byte list" where
  "poke bs off new = take off bs @ new @ drop (off + length new) bs"

definition peek :: "byte list \<Rightarrow> nat \<Rightarrow> nat \<Rightarrow> byte list" where
  "peek bs off n = take n (drop off bs)"

subsection \<open>The container\<close>

text \<open>
  \<^verbatim>\<open>typedef struct { uint8_t small; uint8_t frozen; uint8_t reserved[6];
                   size_t capa; size_t len; char *data; } fio_str_s;\<close>

  The source reads the same 32 bytes in two ways: as the fields above, and, through
  the cast to \<^verbatim>\<open>fio_str__small_s\<close>, as two header bytes followed by the embedded
  string. The record keeps the two header bytes and the 30 bytes that follow them
  (\<open>raw\<close>, offsets 2 to 31 of the struct); \<open>raw ! i\<close> is the embedded string's byte
  \<open>i\<close>, and the fields \<^verbatim>\<open>capa\<close>, \<^verbatim>\<open>len\<close> and \<^verbatim>\<open>data\<close> are the 64-bit values at \<open>raw\<close>
  offsets 6, 14 and 22.
\<close>

record fio_str_s =
  small :: byte
  frozen :: byte
  raw :: "byte list"

definition rd64 :: "byte list \<Rightarrow> nat \<Rightarrow> size_t" where
  "rd64 bs k = le_word (peek bs k 8)"

definition wr64 :: "byte list \<Rightarrow> nat \<Rightarrow> size_t \<Rightarrow> byte list" where
  "wr64 bs k v = poke bs k (le_bytes v)"

definition s_capa :: "fio_str_s \<Rightarrow> size_t" where
  "s_capa s = rd64 (raw s) 6"

definition s_len :: "fio_str_s \<Rightarrow> size_t" where
  "s_len s = rd64 (raw s) 14"

definition s_data :: "fio_str_s \<Rightarrow> size_t" where
  "s_data s = rd64 (raw s) 22"

definition set_capa :: "size_t \<Rightarrow> fio_str_s \<Rightarrow> fio_str_s" where
  "set_capa v s = s\<lparr>raw := wr64 (raw s) 6 v\<rparr>"

definition set_len :: "size_t \<Rightarrow> fio_str_s \<Rightarrow> fio_str_s" where
  "set_len v s = s\<lparr>raw := wr64 (raw s) 14 v\<rparr>"

definition set_data :: "size_t \<Rightarrow> fio_str_s \<Rightarrow> fio_str_s" where
  "set_data v s = s\<lparr>raw := wr64 (raw s) 22 v\<rparr>"

text \<open>A compound literal \<^verbatim>\<open>(fio_str_s){...}\<close> zeroes every member it does not name.\<close>

definition zeroed :: fio_str_s where
  "zeroed = \<lparr>small = 0, frozen = 0, raw = replicate 30 0\<rparr>"

text \<open>\<^verbatim>\<open>#define FIO_STR_INIT ((fio_str_s){.data = NULL, .small = 1})\<close>: a null
  \<^verbatim>\<open>data\<close> is eight zero bytes.\<close>

definition FIO_STR_INIT :: fio_str_s where
  "FIO_STR_INIT = zeroed\<lparr>small := 1\<rparr>"

text \<open>\<^verbatim>\<open>FIO_STR_INIT_EXISTING(buffer, length, capacity)\<close>\<close>

definition FIO_STR_INIT_EXISTING :: "size_t \<Rightarrow> size_t \<Rightarrow> size_t \<Rightarrow> fio_str_s" where
  "FIO_STR_INIT_EXISTING buffer length' capacity =
     set_capa capacity (set_len length' (set_data buffer zeroed))"

text \<open>\<^verbatim>\<open>FIO_STR_SMALL_CAPA\<close>: \<^verbatim>\<open>sizeof(fio_str_s) - offsetof(fio_str_s, reserved)\<close>.\<close>

definition FIO_STR_SMALL_CAPA :: size_t where
  "FIO_STR_SMALL_CAPA = 30"

text \<open>The test \<^verbatim>\<open>(s->small || !s->data)\<close>, the embedded length
  \<^verbatim>\<open>(size_t)(s->small >> 1)\<close> and the tag \<^verbatim>\<open>(uint8_t)(((len << 1) | 1) & 0xFF)\<close>.\<close>

definition is_small :: "fio_str_s \<Rightarrow> bool" where
  "is_small s \<longleftrightarrow> small s \<noteq> 0 \<or> s_data s = 0"

definition small_len :: "fio_str_s \<Rightarrow> size_t" where
  "small_len s = ucast (drop_bit 1 (small s))"

definition small_tag :: "size_t \<Rightarrow> byte" where
  "small_tag n = ucast ((push_bit 1 n OR 1) AND 0xFF)"

subsection \<open>Pointers, the store and the allocator\<close>

text \<open>
  A \<^verbatim>\<open>char *\<close> of the source is null, the embedded string of the container at some
  address (\<^verbatim>\<open>((fio_str__small_s *)s)->data\<close>), or the base of an allocated block.
  A \<^verbatim>\<open>fio_str_s *\<close> is \<open>None\<close> (null) or \<open>Some a\<close>.
\<close>

datatype dptr = Null | Emb nat | Blk size_t

record fio_str_state_s =
  capa :: size_t
  len :: size_t
  data :: dptr

text \<open>
  The world: the containers by address, the allocated blocks by base address, the
  next address the allocator hands out (0 when it has none left) and the byte found
  in memory that was handed out and not yet written.
\<close>

record world =
  objs :: "nat \<Rightarrow> fio_str_s"
  blocks :: "size_t \<rightharpoonup> byte list"
  brk :: size_t
  fill :: byte

text \<open>Whatever stops the program: \<^verbatim>\<open>FIO_ASSERT_ALLOC\<close> (\<^verbatim>\<open>exit\<close>), and the undefined
  behaviours of C the source can run into.\<close>

datatype fault = AllocFail | NullDeref | OutOfBounds | BadFree

definition upd :: "nat \<Rightarrow> (fio_str_s \<Rightarrow> fio_str_s) \<Rightarrow> world \<Rightarrow> world" where
  "upd a f w = w\<lparr>objs := (objs w)(a := f (objs w a))\<rparr>"

text \<open>Reading and writing \<open>n\<close> bytes at \<open>p + off\<close>, inside the object \<open>p\<close> points to.\<close>

definition load :: "world \<Rightarrow> dptr \<Rightarrow> int \<Rightarrow> nat \<Rightarrow> fault + byte list" where
  "load w p off n =
     (case p of
        Null \<Rightarrow> Inl NullDeref
      | Emb a \<Rightarrow>
          if 0 \<le> off \<and> nat off + n \<le> length (raw (objs w a))
          then Inr (peek (raw (objs w a)) (nat off) n) else Inl OutOfBounds
      | Blk b \<Rightarrow>
          (case blocks w b of
             None \<Rightarrow> Inl OutOfBounds
           | Some bs \<Rightarrow>
               if 0 \<le> off \<and> nat off + n \<le> length bs
               then Inr (peek bs (nat off) n) else Inl OutOfBounds))"

definition store :: "world \<Rightarrow> dptr \<Rightarrow> int \<Rightarrow> byte list \<Rightarrow> fault + world" where
  "store w p off new =
     (case p of
        Null \<Rightarrow> Inl NullDeref
      | Emb a \<Rightarrow>
          if 0 \<le> off \<and> nat off + length new \<le> length (raw (objs w a))
          then Inr (upd a (\<lambda>s. s\<lparr>raw := poke (raw s) (nat off) new\<rparr>) w)
          else Inl OutOfBounds
      | Blk b \<Rightarrow>
          (case blocks w b of
             None \<Rightarrow> Inl OutOfBounds
           | Some bs \<Rightarrow>
               if 0 \<le> off \<and> nat off + length new \<le> length bs
               then Inr (w\<lparr>blocks := (blocks w)(b \<mapsto> poke bs (nat off) new)\<rparr>)
               else Inl OutOfBounds))"

text \<open>\<^verbatim>\<open>memmove\<close> between two places of the world: the bytes are read, then
  written, so that overlapping ranges are safe. \<^verbatim>\<open>memcpy\<close> is given the same
  behaviour; the source never calls it on overlapping ranges of one object.\<close>

definition memmove :: "world \<Rightarrow> dptr \<Rightarrow> int \<Rightarrow> dptr \<Rightarrow> int \<Rightarrow> size_t \<Rightarrow> fault + world" where
  "memmove w dst doff src soff n =
     (case load w src soff (unat n) of
        Inl e \<Rightarrow> Inl e
      | Inr bs \<Rightarrow> store w dst doff bs)"

definition memcpy :: "world \<Rightarrow> dptr \<Rightarrow> int \<Rightarrow> dptr \<Rightarrow> int \<Rightarrow> size_t \<Rightarrow> fault + world" where
  "memcpy w dst doff src soff n = memmove w dst doff src soff n"

text \<open>\<^verbatim>\<open>memcpy\<close> from a buffer of the caller (\<^verbatim>\<open>void *src\<close>, \<open>src_len\<close> bytes of it).\<close>

definition memcpy_in :: "world \<Rightarrow> dptr \<Rightarrow> int \<Rightarrow> byte list \<Rightarrow> size_t \<Rightarrow> fault + world" where
  "memcpy_in w dst doff src n =
     (if unat n \<le> length src then store w dst doff (take (unat n) src)
      else Inl OutOfBounds)"

text \<open>
  The allocator. \<^verbatim>\<open>malloc\<close> returns null for a request of 0 bytes or when it has no
  address left, and a block of uninitialised bytes otherwise. \<^verbatim>\<open>realloc\<close> resizes the
  block where it is: the leading bytes are kept and the new ones are uninitialised;
  a new size of 0 frees the block and returns null. \<^verbatim>\<open>free\<close> of a pointer that is
  neither null nor the base of a live block is undefined.
\<close>

definition malloc :: "world \<Rightarrow> size_t \<Rightarrow> size_t \<times> world" where
  "malloc w n =
     (if n = 0 \<or> brk w = 0 then (0, w)
      else (brk w, w\<lparr>blocks := (blocks w)(brk w \<mapsto> replicate (unat n) (fill w)),
                     brk := brk w + 1\<rparr>))"

definition free :: "world \<Rightarrow> size_t \<Rightarrow> fault + world" where
  "free w p =
     (if p = 0 then Inr w
      else case blocks w p of
             None \<Rightarrow> Inl BadFree
           | Some bs \<Rightarrow> Inr (w\<lparr>blocks := (blocks w)(p := None)\<rparr>))"

definition realloc :: "world \<Rightarrow> size_t \<Rightarrow> size_t \<Rightarrow> fault + (size_t \<times> world)" where
  "realloc w p n =
     (if p = 0 then Inr (malloc w n)
      else case blocks w p of
             None \<Rightarrow> Inl BadFree
           | Some bs \<Rightarrow>
               if n = 0 then Inr (0, w\<lparr>blocks := (blocks w)(p := None)\<rparr>)
               else Inr (p, w\<lparr>blocks := (blocks w)(p \<mapsto>
                      take (unat n) bs @ replicate (unat n - length bs) (fill w))\<rparr>))"

section \<open>String state\<close>

text \<open>\<^verbatim>\<open>fio_str_state\<close>: capacity, length and pointer; null-safe.\<close>

definition fio_str_state :: "world \<Rightarrow> nat option \<Rightarrow> fio_str_state_s" where
  "fio_str_state w r =
     (case r of
        None \<Rightarrow> \<lparr>capa = 0, len = 0, data = Null\<rparr>
      | Some a \<Rightarrow>
          let s = objs w a in
          if is_small s
          then \<lparr>capa = FIO_STR_SMALL_CAPA - 1, len = small_len s, data = Emb a\<rparr>
          else \<lparr>capa = s_capa s, len = s_len s, data = Blk (s_data s)\<rparr>)"

text \<open>\<^verbatim>\<open>fio_str_free\<close>: no null check; frees the block unless \<^verbatim>\<open>s->small\<close> is set,
  then reinitialises the container.\<close>

definition fio_str_free :: "world \<Rightarrow> nat option \<Rightarrow> fault + world" where
  "fio_str_free w r =
     (case r of
        None \<Rightarrow> Inl NullDeref
      | Some a \<Rightarrow>
          (case (if small (objs w a) = 0 then free w (s_data (objs w a)) else Inr w) of
             Inl e \<Rightarrow> Inl e
           | Inr w1 \<Rightarrow> Inr (upd a (\<lambda>_. FIO_STR_INIT) w1)))"

text \<open>\<^verbatim>\<open>fio_str_len\<close>, \<^verbatim>\<open>fio_str_data\<close>, \<^verbatim>\<open>fio_str_bytes\<close>, \<^verbatim>\<open>fio_str_capa\<close>: no null
  check either.\<close>

definition fio_str_len :: "world \<Rightarrow> nat option \<Rightarrow> fault + size_t" where
  "fio_str_len w r =
     (case r of
        None \<Rightarrow> Inl NullDeref
      | Some a \<Rightarrow>
          let s = objs w a in Inr (if is_small s then small_len s else s_len s))"

definition fio_str_data :: "world \<Rightarrow> nat option \<Rightarrow> fault + dptr" where
  "fio_str_data w r =
     (case r of
        None \<Rightarrow> Inl NullDeref
      | Some a \<Rightarrow>
          let s = objs w a in Inr (if is_small s then Emb a else Blk (s_data s)))"

definition fio_str_bytes :: "world \<Rightarrow> nat option \<Rightarrow> fault + dptr" where
  "fio_str_bytes w r = fio_str_data w r"

definition fio_str_capa :: "world \<Rightarrow> nat option \<Rightarrow> fault + size_t" where
  "fio_str_capa w r =
     (case r of
        None \<Rightarrow> Inl NullDeref
      | Some a \<Rightarrow>
          let s = objs w a in
          Inr (if is_small s then FIO_STR_SMALL_CAPA - 1 else s_capa s))"

section \<open>Memory management and resizing\<close>

text \<open>\<^verbatim>\<open>fio_str_compact\<close>\<close>

definition fio_str_compact :: "world \<Rightarrow> nat option \<Rightarrow> fault + world" where
  "fio_str_compact w r =
     (case r of
        None \<Rightarrow> Inr w
      | Some a \<Rightarrow>
          let s = objs w a in
          if is_small s then Inr w
          else if s_len s < FIO_STR_SMALL_CAPA then
            (let tmp = s_data s; n = s_len s;
                 w1 = upd a (\<lambda>_. zeroed\<lparr>small := small_tag n, frozen := frozen s\<rparr>) w
             in case (if n \<noteq> 0 then memcpy w1 (Emb a) 0 (Blk tmp) 0 (n + 1) else Inr w1) of
                  Inl e \<Rightarrow> Inl e
                | Inr w2 \<Rightarrow> free w2 tmp)
          else
            (case realloc w (s_data s) (s_len s + 1) of
               Inl e \<Rightarrow> Inl e
             | Inr (p, w1) \<Rightarrow>
                 if p = 0 then Inl AllocFail
                 else Inr (upd a (\<lambda>s1. set_capa (s_len (set_data p s1)) (set_data p s1)) w1)))"

text \<open>\<^verbatim>\<open>fio_str_capa_assert\<close>\<close>

definition fio_str_capa_assert ::
  "world \<Rightarrow> nat option \<Rightarrow> size_t \<Rightarrow> fault + (fio_str_state_s \<times> world)" where
  "fio_str_capa_assert w r needed =
     (case r of
        None \<Rightarrow> Inr (\<lparr>capa = 0, len = 0, data = Null\<rparr>, w)
      | Some a \<Rightarrow>
          let s = objs w a in
          if is_small s then
            (if needed < FIO_STR_SMALL_CAPA
             then Inr (\<lparr>capa = FIO_STR_SMALL_CAPA - 1, len = small_len s, data = Emb a\<rparr>, w)
             else
               (case malloc w (needed + 1) of (tmp, w1) \<Rightarrow>
                  if tmp = 0 then Inl AllocFail
                  else
                    (case (if small_len s \<noteq> 0
                           then memcpy w1 (Blk tmp) 0 (Emb a) 0 (small_len s + 1)
                           else store w1 (Blk tmp) 0 [0]) of
                       Inl e \<Rightarrow> Inl e
                     | Inr w2 \<Rightarrow>
                         let s' = set_data tmp (set_len (small_len s) (set_capa needed zeroed));
                             w3 = upd a (\<lambda>_. s') w2
                         in Inr (\<lparr>capa = needed, len = s_len s', data = Blk (s_data s')\<rparr>, w3))))
          else if needed > s_capa s then
            (let w1 = upd a (set_capa needed) w in
             case realloc w1 (s_data (objs w1 a)) (s_capa (objs w1 a) + 1) of
               Inl e \<Rightarrow> Inl e
             | Inr (p, w2) \<Rightarrow>
                 if p = 0 then Inl AllocFail
                 else
                   (let w3 = upd a (set_data p) w2 in
                    case store w3 (Blk (s_data (objs w3 a))) (uint (s_capa (objs w3 a))) [0] of
                      Inl e \<Rightarrow> Inl e
                    | Inr w4 \<Rightarrow>
                        let s4 = objs w4 a in
                        Inr (\<lparr>capa = s_capa s4, len = s_len s4, data = Blk (s_data s4)\<rparr>, w4)))
          else Inr (\<lparr>capa = s_capa s, len = s_len s, data = Blk (s_data s)\<rparr>, w))"

text \<open>\<^verbatim>\<open>fio_str_resize\<close>\<close>

definition fio_str_resize ::
  "world \<Rightarrow> nat option \<Rightarrow> size_t \<Rightarrow> fault + (fio_str_state_s \<times> world)" where
  "fio_str_resize w r size' =
     (case r of
        None \<Rightarrow> Inr (fio_str_state w r, w)
      | Some a \<Rightarrow>
          if frozen (objs w a) \<noteq> 0 then Inr (fio_str_state w r, w)
          else
            (case fio_str_capa_assert w r size' of
               Inl e \<Rightarrow> Inl e
             | Inr (_, w1) \<Rightarrow>
                 if is_small (objs w1 a) then
                   (let w2 = upd a (\<lambda>s. s\<lparr>small := small_tag size'\<rparr>) w1 in
                    case store w2 (Emb a) (uint size') [0] of
                      Inl e \<Rightarrow> Inl e
                    | Inr w3 \<Rightarrow>
                        Inr (\<lparr>capa = FIO_STR_SMALL_CAPA - 1, len = size', data = Emb a\<rparr>, w3))
                 else
                   (let w2 = upd a (set_len size') w1 in
                    case store w2 (Blk (s_data (objs w2 a))) (uint size') [0] of
                      Inl e \<Rightarrow> Inl e
                    | Inr w3 \<Rightarrow>
                        Inr (\<lparr>capa = s_capa (objs w3 a), len = size',
                              data = Blk (s_data (objs w3 a))\<rparr>, w3))))"

section \<open>Content manipulation\<close>

text \<open>\<^verbatim>\<open>fio_str_write\<close>: \<open>src\<close> is the caller's buffer (\<open>None\<close> for a null pointer).\<close>

definition fio_str_write ::
  "world \<Rightarrow> nat option \<Rightarrow> byte list option \<Rightarrow> size_t \<Rightarrow> fault + (fio_str_state_s \<times> world)" where
  "fio_str_write w r src src_len =
     (case r of
        None \<Rightarrow> Inr (fio_str_state w r, w)
      | Some a \<Rightarrow>
          (case src of
             None \<Rightarrow> Inr (fio_str_state w r, w)
           | Some buf \<Rightarrow>
               if src_len = 0 \<or> frozen (objs w a) \<noteq> 0 then Inr (fio_str_state w r, w)
               else
                 (case fio_str_len w r of
                    Inl e \<Rightarrow> Inl e
                  | Inr n \<Rightarrow>
                      (case fio_str_resize w r (src_len + n) of
                         Inl e \<Rightarrow> Inl e
                       | Inr (state, w1) \<Rightarrow>
                           (case memcpy_in w1 (data state) (uint (len state - src_len)) buf src_len of
                              Inl e \<Rightarrow> Inl e
                            | Inr w2 \<Rightarrow> Inr (state, w2))))))"

text \<open>\<^verbatim>\<open>fio_str_concat\<close>: \<open>src\<close> is another container reference, which may be \<open>dest\<close>.\<close>

definition fio_str_concat ::
  "world \<Rightarrow> nat option \<Rightarrow> nat option \<Rightarrow> fault + (fio_str_state_s \<times> world)" where
  "fio_str_concat w dest src =
     (case dest of
        None \<Rightarrow> Inr (fio_str_state w dest, w)
      | Some a \<Rightarrow>
          if src = None \<or> frozen (objs w a) \<noteq> 0 then Inr (fio_str_state w dest, w)
          else
            (let src_state = fio_str_state w src in
             if len src_state = 0 then Inr (fio_str_state w dest, w)
             else
               (case fio_str_len w dest of
                  Inl e \<Rightarrow> Inl e
                | Inr n \<Rightarrow>
                    (case fio_str_resize w dest (len src_state + n) of
                       Inl e \<Rightarrow> Inl e
                     | Inr (state, w1) \<Rightarrow>
                         (case memcpy w1 (data state) (uint (len state) - uint (len src_state))
                                 (data src_state) 0 (len src_state) of
                            Inl e \<Rightarrow> Inl e
                          | Inr w2 \<Rightarrow> Inr (state, w2))))))"

text \<open>The backwards indexing shared by \<^verbatim>\<open>fio_str_overwrite\<close> and \<^verbatim>\<open>fio_str_insert\<close>:
  \<^verbatim>\<open>if (pos < 0) { pos += s->len + 1; if (pos < 0) pos = 0; }\<close>. It reads the
  field \<^verbatim>\<open>s->len\<close>, whatever the representation.\<close>

definition back_index :: "fio_str_s \<Rightarrow> intptr_t \<Rightarrow> intptr_t" where
  "back_index s pos =
     (if sint pos < 0
      then (let p = pos + (s_len s + 1) in if sint p < 0 then 0 else p)
      else pos)"

text \<open>\<^verbatim>\<open>fio_str_overwrite\<close>\<close>

definition fio_str_overwrite ::
  "world \<Rightarrow> nat option \<Rightarrow> byte list option \<Rightarrow> size_t \<Rightarrow> intptr_t
     \<Rightarrow> fault + (fio_str_state_s \<times> world)" where
  "fio_str_overwrite w r src src_len pos0 =
     (case r of
        None \<Rightarrow> Inr (fio_str_state w r, w)
      | Some a \<Rightarrow>
          (case src of
             None \<Rightarrow> Inr (fio_str_state w r, w)
           | Some buf \<Rightarrow>
               if src_len = 0 \<or> frozen (objs w a) \<noteq> 0 then Inr (fio_str_state w r, w)
               else
                 (let pos1 = back_index (objs w a) pos0;
                      state0 = fio_str_state w r;
                      pos = (if pos1 > len state0 then len state0 else pos1)
                  in case (if pos + src_len > len state0
                           then fio_str_resize w r (pos + src_len)
                           else Inr (state0, w)) of
                       Inl e \<Rightarrow> Inl e
                     | Inr (state, w1) \<Rightarrow>
                         (case memcpy_in w1 (data state) (sint pos) buf src_len of
                            Inl e \<Rightarrow> Inl e
                          | Inr w2 \<Rightarrow>
                              Inr (state,
                                   if pos + src_len > s_len (objs w2 a)
                                   then upd a (set_len (pos + src_len)) w2 else w2)))))"

text \<open>\<^verbatim>\<open>fio_str_insert\<close>\<close>

definition fio_str_insert ::
  "world \<Rightarrow> nat option \<Rightarrow> byte list option \<Rightarrow> size_t \<Rightarrow> intptr_t
     \<Rightarrow> fault + (fio_str_state_s \<times> world)" where
  "fio_str_insert w r src src_len pos0 =
     (case r of
        None \<Rightarrow> Inr (fio_str_state w r, w)
      | Some a \<Rightarrow>
          (case src of
             None \<Rightarrow> Inr (fio_str_state w r, w)
           | Some buf \<Rightarrow>
               if src_len = 0 \<or> frozen (objs w a) \<noteq> 0 then Inr (fio_str_state w r, w)
               else
                 (let pos1 = back_index (objs w a) pos0 in
                  case fio_str_len w r of
                    Inl e \<Rightarrow> Inl e
                  | Inr n \<Rightarrow>
                      (case fio_str_resize w r (src_len + n) of
                         Inl e \<Rightarrow> Inl e
                       | Inr (state, w1) \<Rightarrow>
                           (let pos = (if pos1 > len state - src_len
                                       then len state - src_len else pos1)
                            in case (if pos \<noteq> len state
                                     then memmove w1 (data state) (sint pos + uint src_len)
                                            (data state) (sint pos) src_len
                                     else Inr w1) of
                                 Inl e \<Rightarrow> Inl e
                               | Inr w2 \<Rightarrow>
                                   (case memcpy_in w2 (data state) (sint pos) buf src_len of
                                      Inl e \<Rightarrow> Inl e
                                    | Inr w3 \<Rightarrow> Inr (state, w3)))))))"

text \<open>\<^verbatim>\<open>fio_str_freeze\<close>\<close>

definition fio_str_freeze :: "world \<Rightarrow> nat option \<Rightarrow> world" where
  "fio_str_freeze w r =
     (case r of
        None \<Rightarrow> w
      | Some a \<Rightarrow> upd a (\<lambda>s. s\<lparr>frozen := 1\<rparr>) w)"

section \<open>Sequences of public operations\<close>

text \<open>Initialisation is the assignment \<^verbatim>\<open>*s = FIO_STR_INIT\<close>.\<close>

definition fio_str_init :: "world \<Rightarrow> nat option \<Rightarrow> fault + world" where
  "fio_str_init w r =
     (case r of
        None \<Rightarrow> Inl NullDeref
      | Some a \<Rightarrow> Inr (upd a (\<lambda>_. FIO_STR_INIT) w))"

datatype op =
    Init
  | Free
  | Capa_assert size_t
  | Resize size_t
  | Write "byte list option" size_t
  | Concat "nat option"
  | Overwrite "byte list option" size_t intptr_t
  | Insert "byte list option" size_t intptr_t
  | Compact
  | Freeze

definition world_of :: "fault + (fio_str_state_s \<times> world) \<Rightarrow> fault + world" where
  "world_of x = (case x of Inl e \<Rightarrow> Inl e | Inr (st, w) \<Rightarrow> Inr w)"

fun apply_op :: "world \<Rightarrow> nat option \<Rightarrow> op \<Rightarrow> fault + world" where
  "apply_op w r Init = fio_str_init w r"
| "apply_op w r Free = fio_str_free w r"
| "apply_op w r (Capa_assert needed) = world_of (fio_str_capa_assert w r needed)"
| "apply_op w r (Resize n) = world_of (fio_str_resize w r n)"
| "apply_op w r (Write src src_len) = world_of (fio_str_write w r src src_len)"
| "apply_op w r (Concat src) = world_of (fio_str_concat w r src)"
| "apply_op w r (Overwrite src src_len pos) = world_of (fio_str_overwrite w r src src_len pos)"
| "apply_op w r (Insert src src_len pos) = world_of (fio_str_insert w r src src_len pos)"
| "apply_op w r Compact = fio_str_compact w r"
| "apply_op w r Freeze = Inr (fio_str_freeze w r)"

text \<open>A sequence of calls on one container; a fault ends the program.\<close>

fun run :: "world \<Rightarrow> nat option \<Rightarrow> op list \<Rightarrow> fault + world" where
  "run w r [] = Inr w"
| "run w r (x # xs) =
     (case apply_op w r x of
        Inl e \<Rightarrow> Inl e
      | Inr w' \<Rightarrow> run w' r xs)"

section \<open>What a caller observes\<close>

text \<open>The \<open>length\<close> bytes at the reported pointer, and the byte that follows them.\<close>

definition content :: "world \<Rightarrow> nat option \<Rightarrow> fault + byte list" where
  "content w r = (let st = fio_str_state w r in load w (data st) 0 (unat (len st)))"

definition terminator :: "world \<Rightarrow> nat option \<Rightarrow> fault + byte list" where
  "terminator w r = (let st = fio_str_state w r in load w (data st) (uint (len st)) 1)"

text \<open>The two invariants of the data model, on the reported state.\<close>

definition invariant :: "world \<Rightarrow> nat option \<Rightarrow> bool" where
  "invariant w r \<longleftrightarrow>
     (let st = fio_str_state w r in len st \<le> capa st \<and> terminator w r = Inr [0])"

text \<open>
  A container in a state the operations leave it in: 32 bytes; when embedded, a
  length below \<^verbatim>\<open>FIO_STR_SMALL_CAPA\<close> and a terminator; when on the heap, a live
  block of \<open>capa + 1\<close> bytes (a size that fits \<^verbatim>\<open>size_t\<close>), a length within the
  capacity and a terminator.
\<close>

definition well_formed :: "world \<Rightarrow> nat \<Rightarrow> bool" where
  "well_formed w a \<longleftrightarrow>
     (let s = objs w a in
      length (raw s) = 30 \<and>
      (if is_small s
       then small_len s < FIO_STR_SMALL_CAPA \<and> raw s ! unat (small_len s) = 0
       else (case blocks w (s_data s) of
               None \<Rightarrow> False
             | Some bs \<Rightarrow>
                 length bs = unat (s_capa s) + 1 \<and> length bs < 2 ^ 64 \<and>
                 s_len s \<le> s_capa s \<and> bs ! unat (s_len s) = 0)))"

text \<open>A world in which every container has just been initialised and nothing is
  allocated; uninitialised memory reads as \<open>0xAA\<close>.\<close>

definition init_world :: world where
  "init_world = \<lparr>objs = (\<lambda>_. FIO_STR_INIT), blocks = Map.empty, brk = 1, fill = 0xAA\<rparr>"

text \<open>The container at \<open>a\<close> with its discriminator byte set to 1 (embedded, length 0)
  and every other byte as it is.\<close>

definition as_embedded :: "nat \<Rightarrow> world \<Rightarrow> world" where
  "as_embedded a w = upd a (\<lambda>s. s\<lparr>small := 1\<rparr>) w"

text \<open>A world whose container 0 was set up with \<^verbatim>\<open>FIO_STR_INIT_EXISTING\<close> on a
  41-byte allocation holding \<open>abc\<close> and its terminator: length 3, capacity 40.\<close>

definition heap_world :: world where
  "heap_world =
     \<lparr>objs = (\<lambda>_. FIO_STR_INIT)(0 := FIO_STR_INIT_EXISTING 1 3 40),
      blocks = [1 \<mapsto> [0x61, 0x62, 0x63, 0] @ replicate 37 0xAA],
      brk = 2, fill = 0xAA\<rparr>"

text \<open>The calls that write content, and the calls that test \<^verbatim>\<open>s->frozen\<close> before
  they do anything (\<^verbatim>\<open>fio_str_freeze\<close> itself included: it only sets the flag).\<close>

fun is_content_call :: "op \<Rightarrow> bool" where
  "is_content_call (Write src src_len) = True"
| "is_content_call (Overwrite src src_len pos) = True"
| "is_content_call (Insert src src_len pos) = True"
| "is_content_call x = False"

fun is_gated :: "op \<Rightarrow> bool" where
  "is_gated (Resize n) = True"
| "is_gated (Write src src_len) = True"
| "is_gated (Concat src) = True"
| "is_gated (Overwrite src src_len pos) = True"
| "is_gated (Insert src src_len pos) = True"
| "is_gated Freeze = True"
| "is_gated x = False"

text \<open>A world whose containers are all zero bytes (\<^verbatim>\<open>calloc\<close>, static storage): the
  discriminator byte is clear and \<^verbatim>\<open>data\<close> is null.\<close>

definition zero_world :: world where
  "zero_world = \<lparr>objs = (\<lambda>_. zeroed), blocks = Map.empty, brk = 1, fill = 0xAA\<rparr>"

text \<open>
  Two runs of one call, from the worlds \<open>w\<close> and \<open>w'\<close>, agree when they return the
  same fault, or the same snapshot and either the same world or each its own
  starting world (the call changed nothing).
\<close>

definition agree ::
  "world \<Rightarrow> world \<Rightarrow> fault + (fio_str_state_s \<times> world) \<Rightarrow> fault + (fio_str_state_s \<times> world)
     \<Rightarrow> bool" where
  "agree w w' r r' =
     (case r of
        Inl e \<Rightarrow> (case r' of Inl e' \<Rightarrow> e = e' | Inr x' \<Rightarrow> False)
      | Inr x \<Rightarrow>
          (case r' of
             Inl e' \<Rightarrow> False
           | Inr x' \<Rightarrow> fst x = fst x' \<and> (snd x = snd x' \<or> (snd x = w \<and> snd x' = w'))))"

section \<open>Bytes and fields\<close>

lemma length_le_bytes: "length (le_bytes v) = 8"
  by (simp add: le_bytes_def)

lemma le_word_Cons: "le_word (b # bs) = ucast b OR push_bit 8 (le_word bs)"
  by (simp add: le_word_def)

lemma le_word_bytes_upto:
  "le_word (map (\<lambda>i. ucast (drop_bit (8 * i) v)) [0..<n]) = take_bit (8 * n) (v :: size_t)"
proof (induction n arbitrary: v)
  case 0
  show ?case by (simp add: le_word_def)
next
  case (Suc n)
  have shift: "map (\<lambda>i. (ucast (drop_bit (8 * i) v) :: byte)) [0..<Suc n]
      = ucast v # map (\<lambda>i. ucast (drop_bit (8 * i) (drop_bit 8 v))) [0..<n]"
    by (simp add: upt_conv_Cons map_Suc_upt [symmetric] add.commute del: upt_Suc)
  have "le_word (map (\<lambda>i. (ucast (drop_bit (8 * i) v) :: byte)) [0..<Suc n])
      = ucast (ucast v :: byte) OR push_bit 8 (take_bit (8 * n) (drop_bit 8 v))"
    unfolding shift le_word_Cons Suc.IH ..
  also have "\<dots> = take_bit (8 * Suc n) v"
    by (rule bit_word_eqI) (auto simp add: bit_simps)
  finally show ?case .
qed

lemma le_word_le_bytes: "le_word (le_bytes v) = v"
  using le_word_bytes_upto [of v 8] by (simp add: le_bytes_def take_bit_word_eq_self)

lemma le_word_zeros: "le_word (replicate n 0) = 0"
  by (induction n) (simp_all add: le_word_def)

lemma length_poke: "k + length new \<le> length bs \<Longrightarrow> length (poke bs k new) = length bs"
  by (simp add: poke_def)

lemma length_peek: "k + n \<le> length bs \<Longrightarrow> length (peek bs k n) = n"
  by (simp add: peek_def)

lemma peek_poke_same:
  "k + length new \<le> length bs \<Longrightarrow> peek (poke bs k new) k (length new) = new"
  by (simp add: peek_def poke_def)

lemma peek_poke_other:
  "k + length new \<le> length bs \<Longrightarrow> j + n \<le> k \<or> k + length new \<le> j \<Longrightarrow>
   peek (poke bs k new) j n = peek bs j n"
  by (auto simp add: peek_def poke_def take_drop min_def)

lemma nth_poke:
  "k + length new \<le> length bs \<Longrightarrow> j < length bs \<Longrightarrow>
   poke bs k new ! j = (if k \<le> j \<and> j < k + length new then new ! (j - k) else bs ! j)"
  by (auto simp add: poke_def nth_append min_def)

lemma take_poke_below: "n \<le> k \<Longrightarrow> k \<le> length bs \<Longrightarrow> take n (poke bs k new) = take n bs"
  by (simp add: poke_def)

lemma take_poke_0: "length new \<le> length bs \<Longrightarrow> take (length new) (poke bs 0 new) = new"
  by (simp add: poke_def)

lemma peek_one: "k < length bs \<Longrightarrow> peek bs k (Suc 0) = [bs ! k]"
  by (simp add: peek_def take_Suc_conv_app_nth Cons_nth_drop_Suc [symmetric])

lemma peek_0: "peek bs 0 n = take n bs"
  by (simp add: peek_def)

lemma rd64_wr64_same: "k + 8 \<le> length bs \<Longrightarrow> rd64 (wr64 bs k v) k = v"
  using peek_poke_same [of k "le_bytes v" bs]
  by (simp add: rd64_def wr64_def length_le_bytes le_word_le_bytes)

lemma rd64_wr64_other:
  "k + 8 \<le> length bs \<Longrightarrow> j + 8 \<le> k \<or> k + 8 \<le> j \<Longrightarrow> rd64 (wr64 bs k v) j = rd64 bs j"
  using peek_poke_other [of k "le_bytes v" bs j 8]
  by (simp add: rd64_def wr64_def length_le_bytes)

lemma length_wr64: "k + 8 \<le> length bs \<Longrightarrow> length (wr64 bs k v) = length bs"
  by (simp add: wr64_def length_poke length_le_bytes)

lemma rd64_zeros: "k + 8 \<le> n \<Longrightarrow> rd64 (replicate n 0) k = 0"
  by (simp add: rd64_def peek_def le_word_zeros)

text \<open>The fields of a 32-byte container do not overlap one another.\<close>

lemma fields_set_capa:
  assumes "length (raw s) = 30"
  shows "s_capa (set_capa v s) = v" "s_len (set_capa v s) = s_len s"
    "s_data (set_capa v s) = s_data s" "length (raw (set_capa v s)) = 30"
    "small (set_capa v s) = small s" "frozen (set_capa v s) = frozen s"
  using assms
  by (simp_all add: s_capa_def s_len_def s_data_def set_capa_def
      rd64_wr64_same rd64_wr64_other length_wr64)

lemma fields_set_len:
  assumes "length (raw s) = 30"
  shows "s_capa (set_len v s) = s_capa s" "s_len (set_len v s) = v"
    "s_data (set_len v s) = s_data s" "length (raw (set_len v s)) = 30"
    "small (set_len v s) = small s" "frozen (set_len v s) = frozen s"
  using assms
  by (simp_all add: s_capa_def s_len_def s_data_def set_len_def
      rd64_wr64_same rd64_wr64_other length_wr64)

lemma fields_set_data:
  assumes "length (raw s) = 30"
  shows "s_capa (set_data v s) = s_capa s" "s_len (set_data v s) = s_len s"
    "s_data (set_data v s) = v" "length (raw (set_data v s)) = 30"
    "small (set_data v s) = small s" "frozen (set_data v s) = frozen s"
  using assms
  by (simp_all add: s_capa_def s_len_def s_data_def set_data_def
      rd64_wr64_same rd64_wr64_other length_wr64)

lemmas fields = fields_set_capa fields_set_len fields_set_data

lemma fields_zeroed:
  "s_capa zeroed = 0" "s_len zeroed = 0" "s_data zeroed = 0" "length (raw zeroed) = 30"
  "small zeroed = 0" "frozen zeroed = 0"
  by (simp_all add: zeroed_def s_capa_def s_len_def s_data_def rd64_zeros)

lemma set_capa_idem: "length (raw s) = 30 \<Longrightarrow> set_capa v (set_capa u s) = set_capa v s"
  by (simp add: set_capa_def wr64_def poke_def length_le_bytes)

lemma poke_poke_same:
  "k + length new \<le> length bs \<Longrightarrow> length new' = length new \<Longrightarrow>
   poke (poke bs k new') k new = poke bs k new"
  by (simp add: poke_def)

lemma poke_absorb:
  assumes "k + length new \<le> length bs" "j + length other \<le> length bs"
    and "j + length other \<le> k \<or> k + length new \<le> j"
  shows "poke (poke (poke bs k new) j other) k new = poke (poke bs k new) j other"
proof (rule nth_equalityI)
  show "length (poke (poke (poke bs k new) j other) k new) = length (poke (poke bs k new) j other)"
    using assms by (simp add: length_poke)
next
  fix i
  assume "i < length (poke (poke (poke bs k new) j other) k new)"
  then have i: "i < length bs"
    using assms by (simp add: length_poke)
  show "poke (poke (poke bs k new) j other) k new ! i = poke (poke bs k new) j other ! i"
    using assms i by (auto simp add: nth_poke length_poke)
qed

lemma set_data_absorb:
  "length (raw s) = 30 \<Longrightarrow>
   set_data p (set_capa v (set_data p s)) = set_capa v (set_data p s)"
  using poke_absorb [of 22 "le_bytes p" "raw s" 6 "le_bytes v"]
  by (simp add: set_data_def set_capa_def wr64_def length_le_bytes)

section \<open>Words\<close>

lemma small_tag_nonzero: "small_tag n \<noteq> 0"
proof -
  have "bit (small_tag n) 0"
    by (simp add: small_tag_def bit_simps)
  then show ?thesis by auto
qed

lemma small_len_tag:
  assumes "n < 30"
  shows "small_len (s\<lparr>small := small_tag n\<rparr>) = n"
proof -
  have "n < 2 ^ 7"
    using assms by (simp add: word_less_nat_alt)
  then have "take_bit 7 n = n"
    by (simp add: take_bit_eq_mask less_mask_eq)
  then have hi: "\<And>i. bit n i \<Longrightarrow> i < 7"
    by (metis bit_take_bit_iff)
  have m: "(127 :: size_t) = mask 7"
    by (simp add: mask_eq_exp_minus_1)
  have lo: "\<And>i. i < 7 \<Longrightarrow> bit (127 :: size_t) i"
    unfolding m by (simp only: bit_mask_iff) simp
  have m': "(127 :: byte) = mask 7"
    by (simp add: mask_eq_exp_minus_1)
  have lo': "\<And>i. i < 7 \<Longrightarrow> bit (127 :: byte) i"
    unfolding m' by (simp only: bit_mask_iff) simp
  have m'': "(127 :: int) = mask 7"
    by (simp add: mask_eq_exp_minus_1)
  have lo'': "\<And>i. i < 7 \<Longrightarrow> bit (127 :: int) i"
    unfolding m'' by (simp only: bit_mask_iff) simp
  have dbl: "\<And>i. bit (n * 2) (Suc i) \<longleftrightarrow> i < 63 \<and> bit n i"
    by (auto simp add: mult.commute [of n 2] bit_double_Suc_iff possible_bit_def dest: bit_imp_le_length)
  show ?thesis
    by (rule bit_word_eqI) (auto simp add: small_len_def small_tag_def bit_simps dbl dest: hi intro: lo lo' lo'')
qed

section \<open>The cases of capa_assert\<close>

lemma unat_plus1: "(n :: size_t) + 1 \<noteq> 0 \<Longrightarrow> unat (n + 1) = unat n + 1"
  by (simp add: unatSuc add.commute)

lemma capa_small_noop:
  "is_small (objs w a) \<Longrightarrow> needed < FIO_STR_SMALL_CAPA \<Longrightarrow>
   fio_str_capa_assert w (Some a) needed =
     Inr (\<lparr>capa = 29, len = small_len (objs w a), data = Emb a\<rparr>, w)"
  by (simp add: fio_str_capa_assert_def FIO_STR_SMALL_CAPA_def)

lemma capa_heap_noop:
  "\<not> is_small (objs w a) \<Longrightarrow> needed \<le> s_capa (objs w a) \<Longrightarrow>
   fio_str_capa_assert w (Some a) needed =
     Inr (\<lparr>capa = s_capa (objs w a), len = s_len (objs w a), data = Blk (s_data (objs w a))\<rparr>, w)"
  by (auto simp add: fio_str_capa_assert_def Let_def)

lemma capa_promote:
  assumes "is_small (objs w a)" "\<not> needed < FIO_STR_SMALL_CAPA" "needed + 1 \<noteq> 0" "brk w \<noteq> 0"
    and "length (raw (objs w a)) = 30" "small_len (objs w a) < FIO_STR_SMALL_CAPA"
  shows "fio_str_capa_assert w (Some a) needed =
     Inr (\<lparr>capa = needed, len = small_len (objs w a), data = Blk (brk w)\<rparr>,
          w\<lparr>objs := (objs w)(a := set_data (brk w)
                     (set_len (small_len (objs w a)) (set_capa needed zeroed))),
            blocks := (blocks w)(brk w \<mapsto>
               poke (replicate (unat needed + 1) (fill w)) 0
                 (if small_len (objs w a) \<noteq> 0
                  then take (unat (small_len (objs w a)) + 1) (raw (objs w a)) else [0])),
            brk := brk w + 1\<rparr>)"
proof -
  let ?s = "objs w a"
  let ?L = "small_len ?s"
  have L: "unat ?L < 30" and N: "30 \<le> unat needed"
    using assms(2,6) by (simp_all add: FIO_STR_SMALL_CAPA_def word_less_nat_alt)
  have L1: "unat (?L + 1) = unat ?L + 1"
    using L by (intro unat_plus1) (auto simp: unat_eq_zero [symmetric] unat_word_ariths simp del: unat_eq_zero)
  have N1: "unat (needed + 1) = unat needed + 1"
    using assms(3) by (rule unat_plus1)
  show ?thesis
    using assms L N
    by (simp add: fio_str_capa_assert_def malloc_def memcpy_def memmove_def load_def store_def
        upd_def L1 N1 peek_0 fields fields_zeroed Let_def)
qed

lemma capa_grow:
  assumes "\<not> is_small (objs w a)" "s_capa (objs w a) < needed" "needed + 1 \<noteq> 0"
    and "length (raw (objs w a)) = 30" "blocks w (s_data (objs w a)) = Some bs"
  shows "fio_str_capa_assert w (Some a) needed =
     Inr (\<lparr>capa = needed, len = s_len (objs w a), data = Blk (s_data (objs w a))\<rparr>,
          w\<lparr>objs := (objs w)(a := set_data (s_data (objs w a)) (set_capa needed (objs w a))),
            blocks := (blocks w)(s_data (objs w a) \<mapsto>
               poke (take (unat needed + 1) bs @ replicate (unat needed + 1 - length bs) (fill w))
                 (unat needed) [0])\<rparr>)"
proof -
  have d: "s_data (objs w a) \<noteq> 0"
    using assms(1) by (simp add: is_small_def)
  have N1: "unat (needed + 1) = unat needed + 1"
    using assms(3) by (rule unat_plus1)
  show ?thesis
    using assms d
    by (simp add: fio_str_capa_assert_def realloc_def store_def upd_def N1 fields Let_def)
qed

section \<open>The cases of compact\<close>

lemma compact_small:
  "is_small (objs w a) \<Longrightarrow> fio_str_compact w (Some a) = Inr w"
  by (simp add: fio_str_compact_def)

lemma compact_demote:
  assumes "\<not> is_small (objs w a)" "s_len (objs w a) < FIO_STR_SMALL_CAPA"
    and "blocks w (s_data (objs w a)) = Some bs" "unat (s_len (objs w a)) < length bs"
  shows "fio_str_compact w (Some a) =
     Inr (w\<lparr>objs := (objs w)(a :=
                \<lparr>small = small_tag (s_len (objs w a)), frozen = frozen (objs w a),
                 raw = (if s_len (objs w a) \<noteq> 0
                        then poke (replicate 30 0) 0 (take (unat (s_len (objs w a)) + 1) bs)
                        else replicate 30 0)\<rparr>),
            blocks := (blocks w)(s_data (objs w a) := None)\<rparr>)"
proof -
  let ?n = "s_len (objs w a)"
  have d: "s_data (objs w a) \<noteq> 0"
    using assms(1) by (simp add: is_small_def)
  have n: "unat ?n < 30"
    using assms(2) by (simp add: FIO_STR_SMALL_CAPA_def word_less_nat_alt)
  have n1: "unat (?n + 1) = unat ?n + 1"
    using n by (intro unat_plus1) (auto simp: unat_eq_zero [symmetric] unat_word_ariths simp del: unat_eq_zero)
  show ?thesis
    using assms d n
    by (simp add: fio_str_compact_def memcpy_def memmove_def load_def store_def free_def
        upd_def zeroed_def n1 peek_0 Let_def)
qed

lemma compact_shrink:
  assumes "\<not> is_small (objs w a)" "\<not> s_len (objs w a) < FIO_STR_SMALL_CAPA"
    and "s_len (objs w a) + 1 \<noteq> 0"
    and "blocks w (s_data (objs w a)) = Some bs" "length (raw (objs w a)) = 30"
  shows "fio_str_compact w (Some a) =
     Inr (w\<lparr>objs := (objs w)(a :=
                set_capa (s_len (objs w a)) (set_data (s_data (objs w a)) (objs w a))),
            blocks := (blocks w)(s_data (objs w a) \<mapsto>
               take (unat (s_len (objs w a)) + 1) bs @
               replicate (unat (s_len (objs w a)) + 1 - length bs) (fill w))\<rparr>)"
proof -
  have d: "s_data (objs w a) \<noteq> 0"
    using assms(1) by (simp add: is_small_def)
  have n1: "unat (s_len (objs w a) + 1) = unat (s_len (objs w a)) + 1"
    using assms(3) by (rule unat_plus1)
  show ?thesis
    using assms d
    by (simp add: fio_str_compact_def realloc_def upd_def n1 fields Let_def)
qed

section \<open>What the caller observes, by representation\<close>

lemma state_small:
  "is_small (objs w a) \<Longrightarrow>
   fio_str_state w (Some a) = \<lparr>capa = 29, len = small_len (objs w a), data = Emb a\<rparr>"
  by (simp add: fio_str_state_def FIO_STR_SMALL_CAPA_def)

lemma state_heap:
  "\<not> is_small (objs w a) \<Longrightarrow>
   fio_str_state w (Some a) =
     \<lparr>capa = s_capa (objs w a), len = s_len (objs w a), data = Blk (s_data (objs w a))\<rparr>"
  by (simp add: fio_str_state_def Let_def)

lemma view_small:
  assumes "is_small (objs w a)" "length (raw (objs w a)) = 30"
    and "small_len (objs w a) < FIO_STR_SMALL_CAPA"
  shows "fio_str_state w (Some a) = \<lparr>capa = 29, len = small_len (objs w a), data = Emb a\<rparr>"
    and "content w (Some a) = Inr (take (unat (small_len (objs w a))) (raw (objs w a)))"
    and "terminator w (Some a) = Inr [raw (objs w a) ! unat (small_len (objs w a))]"
proof -
  have L: "unat (small_len (objs w a)) < 30"
    using assms(3) by (simp add: FIO_STR_SMALL_CAPA_def word_less_nat_alt)
  show "fio_str_state w (Some a) = \<lparr>capa = 29, len = small_len (objs w a), data = Emb a\<rparr>"
    using assms(1) by (rule state_small)
  show "content w (Some a) = Inr (take (unat (small_len (objs w a))) (raw (objs w a)))"
    apply (simp only: content_def state_small [OF assms(1)] Let_def fio_str_state_s.simps
        load_def dptr.case)
    using assms(2) L apply (simp add: peek_0)
    done
  show "terminator w (Some a) = Inr [raw (objs w a) ! unat (small_len (objs w a))]"
    apply (simp only: terminator_def state_small [OF assms(1)] Let_def fio_str_state_s.simps
        load_def dptr.case uint_nat)
    using assms(2) L apply (simp add: peek_one)
    done
qed

lemma view_heap:
  assumes "\<not> is_small (objs w a)" "blocks w (s_data (objs w a)) = Some bs"
    and "unat (s_len (objs w a)) < length bs"
  shows "fio_str_state w (Some a) =
      \<lparr>capa = s_capa (objs w a), len = s_len (objs w a), data = Blk (s_data (objs w a))\<rparr>"
    and "content w (Some a) = Inr (take (unat (s_len (objs w a))) bs)"
    and "terminator w (Some a) = Inr [bs ! unat (s_len (objs w a))]"
proof -
  show "fio_str_state w (Some a) =
      \<lparr>capa = s_capa (objs w a), len = s_len (objs w a), data = Blk (s_data (objs w a))\<rparr>"
    using assms(1) by (rule state_heap)
  show "content w (Some a) = Inr (take (unat (s_len (objs w a))) bs)"
    apply (simp only: content_def state_heap [OF assms(1)] Let_def fio_str_state_s.simps
        load_def dptr.case assms(2) option.case)
    using assms(3) apply (simp add: peek_0)
    done
  show "terminator w (Some a) = Inr [bs ! unat (s_len (objs w a))]"
    apply (simp only: terminator_def state_heap [OF assms(1)] Let_def fio_str_state_s.simps
        load_def dptr.case assms(2) option.case uint_nat)
    using assms(3) apply (simp add: peek_one)
    done
qed

lemma wf_small:
  "is_small (objs w a) \<Longrightarrow> well_formed w a \<longleftrightarrow>
     length (raw (objs w a)) = 30 \<and> small_len (objs w a) < FIO_STR_SMALL_CAPA \<and>
     raw (objs w a) ! unat (small_len (objs w a)) = 0"
  by (simp add: well_formed_def Let_def)

lemma wf_heap:
  "\<not> is_small (objs w a) \<Longrightarrow> well_formed w a \<longleftrightarrow>
     length (raw (objs w a)) = 30 \<and>
     (\<exists>bs. blocks w (s_data (objs w a)) = Some bs \<and> length bs = unat (s_capa (objs w a)) + 1 \<and>
        length bs < 2 ^ 64 \<and> s_len (objs w a) \<le> s_capa (objs w a) \<and>
        bs ! unat (s_len (objs w a)) = 0)"
  by (auto simp add: well_formed_def Let_def split: option.splits)

lemma wf_invariant:
  assumes "well_formed w a"
  shows "invariant w (Some a)"
proof (cases "is_small (objs w a)")
  case True
  with assms have *: "length (raw (objs w a)) = 30" "small_len (objs w a) < FIO_STR_SMALL_CAPA"
    "raw (objs w a) ! unat (small_len (objs w a)) = 0"
    by (simp_all add: wf_small)
  then have "small_len (objs w a) \<le> 29"
    by (simp add: FIO_STR_SMALL_CAPA_def word_less_nat_alt word_le_nat_alt)
  then show ?thesis
    using view_small [OF True *(1,2)] *(3) by (simp add: invariant_def)
next
  case False
  with assms obtain bs where *: "blocks w (s_data (objs w a)) = Some bs"
    "length bs = unat (s_capa (objs w a)) + 1" "s_len (objs w a) \<le> s_capa (objs w a)"
    "bs ! unat (s_len (objs w a)) = 0"
    by (auto simp add: wf_heap)
  then have "unat (s_len (objs w a)) < length bs"
    by (simp add: word_le_nat_alt)
  then show ?thesis
    using view_heap [OF False *(1)] *(3,4) by (simp add: invariant_def)
qed

section \<open>capa_assert keeps length and content\<close>

lemma capa_promote_fail:
  "is_small (objs w a) \<Longrightarrow> \<not> needed < FIO_STR_SMALL_CAPA \<Longrightarrow> needed + 1 = 0 \<or> brk w = 0 \<Longrightarrow>
   fio_str_capa_assert w (Some a) needed = Inl AllocFail"
  by (auto simp add: fio_str_capa_assert_def malloc_def)

lemma capa_grow_fail:
  "\<not> is_small (objs w a) \<Longrightarrow> s_capa (objs w a) < needed \<Longrightarrow> needed + 1 = 0 \<Longrightarrow>
   length (raw (objs w a)) = 30 \<Longrightarrow> blocks w (s_data (objs w a)) = Some bs \<Longrightarrow>
   fio_str_capa_assert w (Some a) needed = Inl AllocFail"
  by (simp add: fio_str_capa_assert_def realloc_def upd_def fields is_small_def Let_def)

lemma promoted_view:
  assumes "is_small (objs w a)" "\<not> needed < FIO_STR_SMALL_CAPA" "needed + 1 \<noteq> 0" "brk w \<noteq> 0"
    and "well_formed w a"
    and "fio_str_capa_assert w (Some a) needed = Inr (st, w')"
  shows "st = \<lparr>capa = needed, len = small_len (objs w a), data = Blk (brk w)\<rparr>"
    and "fio_str_state w' (Some a) = st"
    and "content w' (Some a) = content w (Some a)"
    and "terminator w' (Some a) = terminator w (Some a)"
    and "well_formed w' a"
    and "\<exists>bs. blocks w' (brk w) = Some bs \<and> length bs = unat needed + 1 \<and>
           take (unat (small_len (objs w a)) + 1) bs =
           take (unat (small_len (objs w a)) + 1) (raw (objs w a))"
proof -
  let ?s = "objs w a"
  let ?L = "small_len ?s"
  define new where "new = (if ?L \<noteq> 0 then take (unat ?L + 1) (raw ?s) else [0])"
  define bs where "bs = poke (replicate (unat needed + 1) (fill w)) 0 new"
  define s' where "s' = set_data (brk w) (set_len ?L (set_capa needed zeroed))"
  have wfs: "length (raw ?s) = 30" "?L < FIO_STR_SMALL_CAPA" "raw ?s ! unat ?L = 0"
    using assms(1,5) by (simp_all add: wf_small)
  have L: "unat ?L < 30" and N: "30 \<le> unat needed"
    using assms(2) wfs(2) by (simp_all add: FIO_STR_SMALL_CAPA_def word_less_nat_alt)
  have N64: "unat needed + 1 < 2 ^ 64"
    using unat_plus1 [OF assms(3)] unsigned_less [of "needed + 1", where 'a = nat] by simp
  from capa_promote [OF assms(1-4) wfs(1,2)] assms(6)
  have st: "st = \<lparr>capa = needed, len = ?L, data = Blk (brk w)\<rparr>"
    and w': "w' = w\<lparr>objs := (objs w)(a := s'), blocks := (blocks w)(brk w \<mapsto> bs),
                    brk := brk w + 1\<rparr>"
    by (simp_all add: new_def bs_def s'_def)
  have s': "s_capa s' = needed" "s_len s' = ?L" "s_data s' = brk w" "small s' = 0"
    "length (raw s') = 30"
    by (simp_all add: s'_def fields fields_zeroed)
  have obj': "objs w' a = s'" and blks': "blocks w' (brk w) = Some bs"
    by (simp_all add: w')
  have heap': "\<not> is_small (objs w' a)"
    using assms(4) by (simp add: obj' is_small_def s')
  have blk': "blocks w' (s_data (objs w' a)) = Some bs"
    by (simp add: obj' s' blks')
  have new_eq: "new = take (unat ?L + 1) (raw ?s)"
    using wfs(1,3) L by (auto simp: new_def unat_eq_zero take_Suc_conv_app_nth)
  have len_new: "length new = unat ?L + 1"
    using wfs(1) L by (simp add: new_eq)
  have len_bs: "length bs = unat needed + 1"
    using L N len_new by (simp add: bs_def length_poke)
  have take_bs: "take (unat ?L + 1) bs = new"
    using take_poke_0 [of new "replicate (unat needed + 1) (fill w)"] L N len_new
    by (simp add: bs_def)
  have in_bs: "unat (s_len (objs w' a)) < length bs"
    unfolding obj' s' len_bs using L N by linarith
  have content_bs: "take (unat ?L) bs = take (unat ?L) (raw ?s)"
  proof -
    have "take (unat ?L) bs = take (unat ?L) (take (unat ?L + 1) bs)"
      by simp
    also have "\<dots> = take (unat ?L) (raw ?s)"
      unfolding take_bs new_eq by simp
    finally show ?thesis .
  qed
  have term_bs: "bs ! unat ?L = raw ?s ! unat ?L"
  proof -
    have "bs ! unat ?L = take (unat ?L + 1) bs ! unat ?L"
      by simp
    also have "\<dots> = raw ?s ! unat ?L"
      unfolding take_bs new_eq by simp
    finally show ?thesis .
  qed
  show "st = \<lparr>capa = needed, len = ?L, data = Blk (brk w)\<rparr>"
    by (rule st)
  show "fio_str_state w' (Some a) = st"
    unfolding view_heap(1) [OF heap' blk' in_bs] obj' s' st ..
  show "content w' (Some a) = content w (Some a)"
    unfolding view_heap(2) [OF heap' blk' in_bs] view_small(2) [OF assms(1) wfs(1,2)] obj' s'
      content_bs ..
  show "terminator w' (Some a) = terminator w (Some a)"
    unfolding view_heap(3) [OF heap' blk' in_bs] view_small(3) [OF assms(1) wfs(1,2)] obj' s'
      term_bs ..
  have "s_len (objs w' a) \<le> s_capa (objs w' a)"
    unfolding obj' s' using L N by (simp add: word_le_nat_alt)
  moreover have "length bs = unat (s_capa (objs w' a)) + 1"
    unfolding obj' s' by (rule len_bs)
  moreover have "bs ! unat (s_len (objs w' a)) = 0"
    unfolding obj' s' term_bs by (rule wfs(3))
  moreover have "length (raw (objs w' a)) = 30"
    unfolding obj' by (rule s')
  ultimately show "well_formed w' a"
    using blk' len_bs N64 unfolding wf_heap [OF heap'] by simp
  show "\<exists>bs. blocks w' (brk w) = Some bs \<and> length bs = unat needed + 1 \<and>
           take (unat ?L + 1) bs = take (unat ?L + 1) (raw ?s)"
    using len_bs take_bs new_eq blks' by simp
qed

lemma grown_view:
  assumes "\<not> is_small (objs w a)" "s_capa (objs w a) < needed" "needed + 1 \<noteq> 0"
    and "well_formed w a"
    and "fio_str_capa_assert w (Some a) needed = Inr (st, w')"
  shows "st = \<lparr>capa = needed, len = s_len (objs w a), data = Blk (s_data (objs w a))\<rparr>"
    and "fio_str_state w' (Some a) = st"
    and "content w' (Some a) = content w (Some a)"
    and "terminator w' (Some a) = terminator w (Some a)"
    and "well_formed w' a"
    and "\<exists>old bs. blocks w (s_data (objs w a)) = Some old \<and>
           blocks w' (s_data (objs w a)) = Some bs \<and> length bs = unat needed + 1 \<and>
           take (unat (s_len (objs w a)) + 1) bs = take (unat (s_len (objs w a)) + 1) old"
proof -
  let ?s = "objs w a"
  let ?n = "s_len ?s"
  let ?d = "s_data ?s"
  from assms(1,4) obtain old where wfs: "length (raw ?s) = 30" "blocks w ?d = Some old"
    "length old = unat (s_capa ?s) + 1" "?n \<le> s_capa ?s" "old ! unat ?n = 0"
    by (auto simp add: wf_heap)
  define grown where "grown = take (unat needed + 1) old @
      replicate (unat needed + 1 - length old) (fill w)"
  define bs where "bs = poke grown (unat needed) [0]"
  define s' where "s' = set_data ?d (set_capa needed ?s)"
  have C: "unat (s_capa ?s) < unat needed" and n: "unat ?n \<le> unat (s_capa ?s)"
    using assms(2) wfs(4) by (simp_all add: word_less_nat_alt word_le_nat_alt)
  have N64: "unat needed + 1 < 2 ^ 64"
    using unat_plus1 [OF assms(3)] unsigned_less [of "needed + 1", where 'a = nat] by simp
  from capa_grow [OF assms(1-3) wfs(1,2)] assms(5)
  have st: "st = \<lparr>capa = needed, len = ?n, data = Blk ?d\<rparr>"
    and w': "w' = w\<lparr>objs := (objs w)(a := s'), blocks := (blocks w)(?d \<mapsto> bs)\<rparr>"
    by (simp_all add: grown_def bs_def s'_def)
  have d: "?d \<noteq> 0" "small ?s = 0"
    using assms(1) by (simp_all add: is_small_def)
  have s': "s_capa s' = needed" "s_len s' = ?n" "s_data s' = ?d" "small s' = 0"
    "length (raw s') = 30"
    using wfs(1) d by (simp_all add: s'_def fields)
  have obj': "objs w' a = s'" and blks': "blocks w' ?d = Some bs"
    by (simp_all add: w')
  have heap': "\<not> is_small (objs w' a)"
    using d by (simp add: obj' is_small_def s')
  have blk': "blocks w' (s_data (objs w' a)) = Some bs"
    by (simp add: obj' s' blks')
  have len_grown: "length grown = unat needed + 1"
    using C wfs(3) by (simp add: grown_def)
  have len_bs: "length bs = unat needed + 1"
    using len_grown by (simp add: bs_def length_poke)
  have take_grown: "take (unat ?n + 1) grown = take (unat ?n + 1) old"
    using C n wfs(3) by (simp add: grown_def)
  have take_bs: "take (unat ?n + 1) bs = take (unat ?n + 1) old"
    using take_poke_below [of "unat ?n + 1" "unat needed" grown "[0]"] C n len_grown take_grown
    by (simp add: bs_def)
  have in_bs: "unat (s_len (objs w' a)) < length bs"
    unfolding obj' s' len_bs using C n by linarith
  have in_old: "unat ?n < length old"
    using n wfs(3) by simp
  have content_bs: "take (unat ?n) bs = take (unat ?n) old"
  proof -
    have "take (unat ?n) bs = take (unat ?n) (take (unat ?n + 1) bs)"
      by simp
    also have "\<dots> = take (unat ?n) old"
      unfolding take_bs by simp
    finally show ?thesis .
  qed
  have term_bs: "bs ! unat ?n = old ! unat ?n"
  proof -
    have "bs ! unat ?n = take (unat ?n + 1) bs ! unat ?n"
      by simp
    also have "\<dots> = old ! unat ?n"
      unfolding take_bs by simp
    finally show ?thesis .
  qed
  show "st = \<lparr>capa = needed, len = ?n, data = Blk ?d\<rparr>"
    by (rule st)
  show "fio_str_state w' (Some a) = st"
    unfolding view_heap(1) [OF heap' blk' in_bs] obj' s' st ..
  show "content w' (Some a) = content w (Some a)"
    unfolding view_heap(2) [OF heap' blk' in_bs] view_heap(2) [OF assms(1) wfs(2) in_old] obj' s'
      content_bs ..
  show "terminator w' (Some a) = terminator w (Some a)"
    unfolding view_heap(3) [OF heap' blk' in_bs] view_heap(3) [OF assms(1) wfs(2) in_old] obj' s'
      term_bs ..
  have "s_len (objs w' a) \<le> s_capa (objs w' a)"
    unfolding obj' s' using C n by (simp add: word_le_nat_alt)
  moreover have "length bs = unat (s_capa (objs w' a)) + 1"
    unfolding obj' s' by (rule len_bs)
  moreover have "bs ! unat (s_len (objs w' a)) = 0"
    unfolding obj' s' term_bs by (rule wfs(5))
  moreover have "length (raw (objs w' a)) = 30"
    unfolding obj' by (rule s')
  ultimately show "well_formed w' a"
    using blk' len_bs N64 unfolding wf_heap [OF heap'] by simp
  show "\<exists>old bs. blocks w ?d = Some old \<and> blocks w' ?d = Some bs \<and>
          length bs = unat needed + 1 \<and> take (unat ?n + 1) bs = take (unat ?n + 1) old"
    using len_bs take_bs blks' wfs(2) by simp
qed

lemma capa_preserves:
  assumes "well_formed w a" "fio_str_capa_assert w (Some a) needed = Inr (st, w')"
  shows "fio_str_state w' (Some a) = st"
    and "len st = len (fio_str_state w (Some a))"
    and "content w' (Some a) = content w (Some a)"
    and "terminator w' (Some a) = terminator w (Some a)"
    and "well_formed w' a"
    and "needed \<le> capa st"
proof -
  have "fio_str_state w' (Some a) = st \<and> len st = len (fio_str_state w (Some a)) \<and>
      content w' (Some a) = content w (Some a) \<and>
      terminator w' (Some a) = terminator w (Some a) \<and> well_formed w' a \<and> needed \<le> capa st"
  proof (cases "is_small (objs w a)")
    case True
    show ?thesis
    proof (cases "needed < FIO_STR_SMALL_CAPA")
      case small: True
      then have "needed \<le> 29"
        by (simp add: FIO_STR_SMALL_CAPA_def word_less_nat_alt word_le_nat_alt)
      then show ?thesis
        using capa_small_noop [OF True small] assms state_small [OF True] by auto
    next
      case big: False
      have ok: "needed + 1 \<noteq> 0" "brk w \<noteq> 0"
        using capa_promote_fail [OF True big] assms(2) by auto
      show ?thesis
        using promoted_view [OF True big ok assms] state_small [OF True] by simp
    qed
  next
    case False
    from False assms(1) obtain old where wfs: "length (raw (objs w a)) = 30"
      "blocks w (s_data (objs w a)) = Some old"
      by (auto simp add: wf_heap)
    show ?thesis
    proof (cases "needed \<le> s_capa (objs w a)")
      case fits: True
      then show ?thesis
        using capa_heap_noop [OF False fits] assms state_heap [OF False] by auto
    next
      case grow: False
      then have lt: "s_capa (objs w a) < needed"
        by simp
      have ok: "needed + 1 \<noteq> 0"
        using capa_grow_fail [OF False lt _ wfs] assms(2) by auto
      show ?thesis
        using grown_view [OF False lt ok assms] state_heap [OF False] by simp
    qed
  qed
  then show "fio_str_state w' (Some a) = st"
    and "len st = len (fio_str_state w (Some a))"
    and "content w' (Some a) = content w (Some a)"
    and "terminator w' (Some a) = terminator w (Some a)"
    and "well_formed w' a"
    and "needed \<le> capa st"
    by simp_all
qed

section \<open>compact\<close>

lemma plus1_nonzero:
  assumes "unat (n :: size_t) + 1 < 2 ^ 64"
  shows "n + 1 \<noteq> 0"
proof
  assume z: "n + 1 = 0"
  have "unat (n + 1) = (unat n + 1) mod 2 ^ 64"
    by (simp add: unat_word_ariths)
  with assms have "unat (n + 1) = unat n + 1"
    by simp
  with z show False
    by simp
qed

lemma small_len_of_tag:
  "small s = small_tag n \<Longrightarrow> n < 30 \<Longrightarrow> small_len s = n"
  using small_len_tag [of n s] by (simp add: small_len_def)

lemma compact_view:
  assumes "well_formed w a"
  shows "\<exists>w'. fio_str_compact w (Some a) = Inr w' \<and> fio_str_compact w' (Some a) = Inr w' \<and>
      len (fio_str_state w' (Some a)) = len (fio_str_state w (Some a)) \<and>
      content w' (Some a) = content w (Some a) \<and>
      terminator w' (Some a) = terminator w (Some a) \<and>
      well_formed w' a \<and> frozen (objs w' a) = frozen (objs w a) \<and>
      (len (fio_str_state w (Some a)) \<le> 29 \<longrightarrow>
         fio_str_state w' (Some a) =
           \<lparr>capa = 29, len = len (fio_str_state w (Some a)), data = Emb a\<rparr>)"
proof (cases "is_small (objs w a)")
  case True
  then show ?thesis
    using assms by (simp add: compact_small state_small)
next
  case False
  let ?s = "objs w a"
  let ?n = "s_len ?s"
  let ?d = "s_data ?s"
  from False assms obtain old where wfs: "length (raw ?s) = 30" "blocks w ?d = Some old"
    "length old = unat (s_capa ?s) + 1" "length old < 2 ^ 64" "?n \<le> s_capa ?s"
    "old ! unat ?n = 0"
    by (auto simp add: wf_heap)
  have n: "unat ?n \<le> unat (s_capa ?s)"
    using wfs(5) by (simp add: word_le_nat_alt)
  have in_old: "unat ?n < length old"
    using n wfs(3) by simp
  have d: "?d \<noteq> 0" "small ?s = 0"
    using False by (simp_all add: is_small_def)
  note old_view = view_heap [OF False wfs(2) in_old]
  show ?thesis
  proof (cases "?n < FIO_STR_SMALL_CAPA")
    case demote: True
    have n30: "?n < 30" "unat ?n < 30" "?n \<le> 29"
      using demote by (simp_all add: FIO_STR_SMALL_CAPA_def word_less_nat_alt word_le_nat_alt)
    define r where "r = (if ?n \<noteq> 0 then poke (replicate 30 0) 0 (take (unat ?n + 1) old)
        else replicate 30 0)"
    define s' where "s' = \<lparr>small = small_tag ?n, frozen = frozen ?s, raw = r\<rparr>"
    define w' where "w' = w\<lparr>objs := (objs w)(a := s'), blocks := (blocks w)(?d := None)\<rparr>"
    have run: "fio_str_compact w (Some a) = Inr w'"
      using compact_demote [OF False demote wfs(2) in_old] by (simp add: w'_def s'_def r_def)
    have obj': "objs w' a = s'"
      by (simp add: w'_def)
    have len_r: "length r = 30"
      using n30 in_old by (simp add: r_def length_poke)
    have take_r: "take (unat ?n + 1) r = take (unat ?n + 1) old"
    proof (cases "?n = 0")
      case True
      then show ?thesis
        using wfs(6) in_old by (simp add: r_def take_Suc_conv_app_nth)
    next
      case False
      then show ?thesis
        using take_poke_0 [of "take (unat ?n + 1) old" "replicate 30 0"] n30 in_old
        by (simp add: r_def)
    qed
    have s': "small s' = small_tag ?n" "raw s' = r" "frozen s' = frozen ?s"
      by (simp_all add: s'_def)
    have small': "is_small (objs w' a)"
      by (simp add: obj' is_small_def s' small_tag_nonzero)
    have sl: "small_len (objs w' a) = ?n"
      unfolding obj' using s'(1) n30(1) by (rule small_len_of_tag)
    have sl': "small_len s' = ?n"
      using sl unfolding obj' .
    have lt: "small_len (objs w' a) < FIO_STR_SMALL_CAPA"
      unfolding sl by (rule demote)
    have len': "length (raw (objs w' a)) = 30"
      unfolding obj' s' by (rule len_r)
    note new_view = view_small [OF small' len' lt]
    have content_r: "take (unat ?n) r = take (unat ?n) old"
    proof -
      have "take (unat ?n) r = take (unat ?n) (take (unat ?n + 1) r)"
        by simp
      also have "\<dots> = take (unat ?n) old"
        unfolding take_r by simp
      finally show ?thesis .
    qed
    have term_r: "r ! unat ?n = old ! unat ?n"
    proof -
      have "r ! unat ?n = take (unat ?n + 1) r ! unat ?n"
        by simp
      also have "\<dots> = old ! unat ?n"
        unfolding take_r by simp
      finally show ?thesis .
    qed
    have "fio_str_compact w' (Some a) = Inr w'"
      using small' by (rule compact_small)
    moreover have "len (fio_str_state w' (Some a)) = len (fio_str_state w (Some a))"
      unfolding new_view(1) old_view(1) sl by simp
    moreover have "content w' (Some a) = content w (Some a)"
      unfolding new_view(2) old_view(2) sl obj' s' sl' content_r ..
    moreover have "terminator w' (Some a) = terminator w (Some a)"
      unfolding new_view(3) old_view(3) sl obj' s' sl' term_r ..
    moreover have "well_formed w' a"
      unfolding wf_small [OF small'] sl using len' lt
      by (simp add: obj' s' term_r wfs(6) sl')
    moreover have "frozen (objs w' a) = frozen (objs w a)"
      by (simp add: obj' s')
    moreover have "fio_str_state w' (Some a) =
        \<lparr>capa = 29, len = len (fio_str_state w (Some a)), data = Emb a\<rparr>"
      unfolding new_view(1) old_view(1) sl by simp
    ultimately show ?thesis
      using run by blast
  next
    case shrink: False
    have n30: "30 \<le> unat ?n"
      using shrink by (simp add: FIO_STR_SMALL_CAPA_def word_less_nat_alt)
    have n64: "unat ?n + 1 < 2 ^ 64"
      using n wfs(3,4) by simp
    have n1: "?n + 1 \<noteq> 0"
      using n64 by (rule plus1_nonzero)
    define bs where "bs = take (unat ?n + 1) old @ replicate (unat ?n + 1 - length old) (fill w)"
    define s' where "s' = set_capa ?n (set_data ?d ?s)"
    define w' where "w' = w\<lparr>objs := (objs w)(a := s'), blocks := (blocks w)(?d \<mapsto> bs)\<rparr>"
    have run: "fio_str_compact w (Some a) = Inr w'"
      using compact_shrink [OF False shrink n1 wfs(2,1)] by (simp add: w'_def s'_def bs_def)
    have bs_eq: "bs = take (unat ?n + 1) old"
      using in_old by (simp add: bs_def)
    have len_bs: "length bs = unat ?n + 1"
      using in_old by (simp add: bs_eq)
    have s': "s_capa s' = ?n" "s_len s' = ?n" "s_data s' = ?d" "small s' = 0"
      "length (raw s') = 30" "frozen s' = frozen ?s"
      using wfs(1) d by (simp_all add: s'_def fields)
    have obj': "objs w' a = s'" and blks': "blocks w' ?d = Some bs"
      by (simp_all add: w'_def)
    have heap': "\<not> is_small (objs w' a)"
      using d by (simp add: obj' is_small_def s')
    have blk': "blocks w' (s_data (objs w' a)) = Some bs"
      by (simp add: obj' s' blks')
    have in_bs: "unat (s_len (objs w' a)) < length bs"
      unfolding obj' s' len_bs by simp
    note new_view = view_heap [OF heap' blk' in_bs]
    have again: "fio_str_compact w' (Some a) = Inr w'"
    proof -
      have sh: "\<not> s_len (objs w' a) < FIO_STR_SMALL_CAPA" "s_len (objs w' a) + 1 \<noteq> 0"
        "length (raw (objs w' a)) = 30"
        using shrink n1 by (simp_all add: obj' s')
      have same_obj: "set_capa ?n (set_data ?d s') = s'"
        using wfs(1) by (simp add: s'_def set_data_absorb set_capa_idem fields)
      have same_bs: "take (unat ?n + 1) bs @ replicate (unat ?n + 1 - length bs) (fill w') = bs"
        by (simp add: len_bs)
      have "fio_str_compact w' (Some a) =
          Inr (w'\<lparr>objs := (objs w')(a := s'), blocks := (blocks w')(?d \<mapsto> bs)\<rparr>)"
        using compact_shrink [OF heap' sh(1,2) blk' sh(3)]
        by (simp only: obj' s' same_obj same_bs)
      also have "w'\<lparr>objs := (objs w')(a := s'), blocks := (blocks w')(?d \<mapsto> bs)\<rparr> = w'"
        by (simp add: w'_def)
      finally show ?thesis .
    qed
    moreover have "len (fio_str_state w' (Some a)) = len (fio_str_state w (Some a))"
      unfolding new_view(1) old_view(1) by (simp add: obj' s')
    moreover have "content w' (Some a) = content w (Some a)"
      unfolding new_view(2) old_view(2) obj' s' by (simp add: bs_eq)
    moreover have "terminator w' (Some a) = terminator w (Some a)"
      unfolding new_view(3) old_view(3) obj' s' by (simp add: bs_eq)
    moreover have "well_formed w' a"
      unfolding wf_heap [OF heap'] using blk' len_bs n64 wfs(6)
      by (simp add: obj' s' bs_eq)
    moreover have "frozen (objs w' a) = frozen (objs w a)"
      by (simp add: obj' s')
    moreover have "\<not> len (fio_str_state w (Some a)) \<le> 29"
      unfolding old_view(1) using n30 by (simp add: word_le_nat_alt)
    ultimately show ?thesis
      using run by blast
  qed
qed

section \<open>The frozen flag\<close>

lemma frozen_update_fields:
  "s_capa (s\<lparr>frozen := v\<rparr>) = s_capa s"
  "s_len (s\<lparr>frozen := v\<rparr>) = s_len s"
  "s_data (s\<lparr>frozen := v\<rparr>) = s_data s"
  "is_small (s\<lparr>frozen := v\<rparr>) = is_small s"
  "small_len (s\<lparr>frozen := v\<rparr>) = small_len s"
  by (simp_all add: s_capa_def s_len_def s_data_def is_small_def small_len_def)

lemma freeze_Some:
  "objs (fio_str_freeze w (Some a)) a = (objs w a)\<lparr>frozen := 1\<rparr>"
  "blocks (fio_str_freeze w (Some a)) = blocks w"
  by (simp_all add: fio_str_freeze_def upd_def)

lemma freeze_state: "fio_str_state (fio_str_freeze w r) r = fio_str_state w r"
proof (cases r)
  case None
  then show ?thesis by (simp add: fio_str_freeze_def)
next
  case (Some a)
  show ?thesis
    unfolding Some fio_str_state_def option.case Let_def freeze_Some frozen_update_fields ..
qed

lemma freeze_load: "load (fio_str_freeze w r) p off n = load w p off n"
proof (cases r)
  case None
  then show ?thesis by (simp add: fio_str_freeze_def)
next
  case (Some a)
  show ?thesis
    by (cases p) (simp_all add: Some load_def fio_str_freeze_def upd_def)
qed

lemma freeze_frame:
  "fio_str_state (fio_str_freeze w r) r = fio_str_state w r"
  "content (fio_str_freeze w r) r = content w r"
  "terminator (fio_str_freeze w r) r = terminator w r"
  unfolding content_def terminator_def freeze_state freeze_load by (rule refl)+

lemma freeze_well_formed:
  "well_formed (fio_str_freeze w (Some a)) a \<longleftrightarrow> well_formed w a"
  unfolding well_formed_def Let_def freeze_Some frozen_update_fields by simp

lemma freeze_frozen: "frozen (objs (fio_str_freeze w (Some a)) a) \<noteq> 0"
  by (simp add: fio_str_freeze_def upd_def)

lemma freeze_idem: "fio_str_freeze (fio_str_freeze w r) r = fio_str_freeze w r"
  by (cases r) (simp_all add: fio_str_freeze_def upd_def)

lemma frozen_noop:
  assumes "frozen (objs w a) \<noteq> 0"
  shows "fio_str_resize w (Some a) n = Inr (fio_str_state w (Some a), w)"
    and "fio_str_write w (Some a) src src_len = Inr (fio_str_state w (Some a), w)"
    and "fio_str_concat w (Some a) other = Inr (fio_str_state w (Some a), w)"
    and "fio_str_overwrite w (Some a) src src_len pos = Inr (fio_str_state w (Some a), w)"
    and "fio_str_insert w (Some a) src src_len pos = Inr (fio_str_state w (Some a), w)"
  using assms
  by (simp_all add: fio_str_resize_def fio_str_write_def fio_str_concat_def
      fio_str_overwrite_def fio_str_insert_def split: option.splits)

lemma null_noop:
  "fio_str_capa_assert w None needed = Inr (\<lparr>capa = 0, len = 0, data = Null\<rparr>, w)"
  "fio_str_resize w None n = Inr (\<lparr>capa = 0, len = 0, data = Null\<rparr>, w)"
  "fio_str_write w None src src_len = Inr (\<lparr>capa = 0, len = 0, data = Null\<rparr>, w)"
  "fio_str_concat w None other = Inr (\<lparr>capa = 0, len = 0, data = Null\<rparr>, w)"
  "fio_str_overwrite w None src src_len pos = Inr (\<lparr>capa = 0, len = 0, data = Null\<rparr>, w)"
  "fio_str_insert w None src src_len pos = Inr (\<lparr>capa = 0, len = 0, data = Null\<rparr>, w)"
  "fio_str_compact w None = Inr w"
  "fio_str_freeze w None = w"
  by (simp_all add: fio_str_capa_assert_def fio_str_resize_def fio_str_write_def
      fio_str_concat_def fio_str_overwrite_def fio_str_insert_def fio_str_compact_def
      fio_str_freeze_def fio_str_state_def)

lemma gated_step:
  assumes "is_gated x"
  shows "apply_op (fio_str_freeze w r) r x = Inr (fio_str_freeze w r)"
proof (cases r)
  case None
  with assms show ?thesis
    by (cases x) (simp_all add: null_noop world_of_def)
next
  case (Some a)
  with assms show ?thesis
    by (cases x) (simp_all add: frozen_noop [OF freeze_frozen] world_of_def freeze_idem)
qed

lemma gated_run:
  "list_all is_gated xs \<Longrightarrow> run (fio_str_freeze w r) r xs = Inr (fio_str_freeze w r)"
  by (induction xs) (simp_all add: gated_step)

lemma content_call_gated: "is_content_call x \<Longrightarrow> is_gated x"
  by (cases x) simp_all

section \<open>Two concrete worlds\<close>

lemma init_world_facts:
  "well_formed init_world 0" "is_small (objs init_world 0)"
  "small_len (objs init_world 0) = 0" "brk init_world = 1"
  "fio_str_state init_world (Some 0) = \<lparr>capa = 29, len = 0, data = Emb 0\<rparr>"
  "content init_world (Some 0) = Inr []"
  by code_simp+

lemma heap_world_fields:
  "\<not> is_small (objs heap_world 0)"
  "s_capa (objs heap_world 0) = 40" "s_len (objs heap_world 0) = 3"
  "s_data (objs heap_world 0) = 1"
  "length (raw (objs heap_world 0)) = 30"
  "blocks heap_world 1 = Some ([0x61, 0x62, 0x63, 0] @ replicate 37 0xAA)"
  "fio_str_state heap_world (Some 0) = \<lparr>capa = 40, len = 3, data = Blk 1\<rparr>"
  "content heap_world (Some 0) = Inr [0x61, 0x62, 0x63]"
  "terminator heap_world (Some 0) = Inr [0]"
  by code_simp+

lemma heap_world_well_formed: "well_formed heap_world 0"
  unfolding wf_heap [OF heap_world_fields(1)] heap_world_fields
  by simp

section \<open>The case analysis of capa_assert\<close>

text \<open>
  Claim C3, as stated, fails at \<open>needed = 29\<close>: 29 is the embedded capacity the
  accessors report, so the claim puts the request in its promoting case
  (\<open>needed \<ge> embedded_capacity\<close>), while \<^verbatim>\<open>fio_str_capa_assert\<close> tests
  \<^verbatim>\<open>needed < FIO_STR_SMALL_CAPA\<close> (30) and leaves the container embedded, with
  nothing allocated.
\<close>

theorem capa_assert_29_stays_embedded:
  "case fio_str_capa_assert init_world (Some 0) 29 of
     Inl e \<Rightarrow> False
   | Inr (st, w) \<Rightarrow>
       fio_str_capa init_world (Some 0) = Inr 29 \<and>
       st = \<lparr>capa = 29, len = 0, data = Emb 0\<rparr> \<and>
       fio_str_state w (Some 0) = st \<and> blocks w 1 = None"
  by code_simp

text \<open>
  Claim C3, amended. For a well-formed container \<^verbatim>\<open>fio_str_capa_assert\<close> returns a
  state whose capacity is at least \<open>needed\<close>, which is the container's new state, with
  length, content and terminator unchanged; and
  \<^item> on the heap with \<open>needed \<le> capa\<close> nothing changes;
  \<^item> on the heap with \<open>needed > capa\<close> (and \<open>needed + 1\<close> representable) the block is
    reallocated to exactly \<open>needed + 1\<close> bytes and the capacity becomes \<open>needed\<close>;
  \<^item> embedded with \<open>needed \<le> 29\<close> (the embedded capacity) nothing changes and the
    capacity reported is 29;
  \<^item> embedded with \<open>needed > 29\<close> (and an allocation that succeeds) the container is
    promoted to a new block of \<open>needed + 1\<close> bytes holding the embedded bytes and
    their terminator.
\<close>

theorem capa_assert_cases:
  assumes "well_formed w a"
  shows
    "(\<forall>st w'. fio_str_capa_assert w (Some a) needed = Inr (st, w') \<longrightarrow>
        needed \<le> capa st \<and> fio_str_state w' (Some a) = st \<and>
        len st = len (fio_str_state w (Some a)) \<and>
        content w' (Some a) = content w (Some a) \<and>
        terminator w' (Some a) = terminator w (Some a)) \<and>
     (\<not> is_small (objs w a) \<and> needed \<le> s_capa (objs w a) \<longrightarrow>
        fio_str_capa_assert w (Some a) needed = Inr (fio_str_state w (Some a), w)) \<and>
     (\<not> is_small (objs w a) \<and> s_capa (objs w a) < needed \<and> needed + 1 \<noteq> 0 \<longrightarrow>
        (\<exists>w' old bs.
           fio_str_capa_assert w (Some a) needed =
             Inr (\<lparr>capa = needed, len = s_len (objs w a), data = Blk (s_data (objs w a))\<rparr>, w') \<and>
           blocks w (s_data (objs w a)) = Some old \<and>
           blocks w' (s_data (objs w a)) = Some bs \<and> length bs = unat needed + 1 \<and>
           take (unat (s_len (objs w a)) + 1) bs = take (unat (s_len (objs w a)) + 1) old)) \<and>
     (is_small (objs w a) \<and> needed \<le> 29 \<longrightarrow>
        fio_str_capa_assert w (Some a) needed =
          Inr (\<lparr>capa = 29, len = small_len (objs w a), data = Emb a\<rparr>, w)) \<and>
     (is_small (objs w a) \<and> 29 < needed \<and> needed + 1 \<noteq> 0 \<and> brk w \<noteq> 0 \<longrightarrow>
        (\<exists>w' bs.
           fio_str_capa_assert w (Some a) needed =
             Inr (\<lparr>capa = needed, len = small_len (objs w a), data = Blk (brk w)\<rparr>, w') \<and>
           blocks w' (brk w) = Some bs \<and> length bs = unat needed + 1 \<and>
           take (unat (small_len (objs w a)) + 1) bs =
             take (unat (small_len (objs w a)) + 1) (raw (objs w a))))"
proof (intro conjI allI impI)
  fix st w'
  assume r: "fio_str_capa_assert w (Some a) needed = Inr (st, w')"
  note p = capa_preserves [OF assms r]
  show "needed \<le> capa st" by (rule p(6))
  show "fio_str_state w' (Some a) = st" by (rule p(1))
  show "len st = len (fio_str_state w (Some a))" by (rule p(2))
  show "content w' (Some a) = content w (Some a)" by (rule p(3))
  show "terminator w' (Some a) = terminator w (Some a)" by (rule p(4))
next
  assume h: "\<not> is_small (objs w a) \<and> needed \<le> s_capa (objs w a)"
  then show "fio_str_capa_assert w (Some a) needed = Inr (fio_str_state w (Some a), w)"
    using capa_heap_noop [of w a needed] state_heap [of w a] by simp
next
  assume h: "\<not> is_small (objs w a) \<and> s_capa (objs w a) < needed \<and> needed + 1 \<noteq> 0"
  then have heap: "\<not> is_small (objs w a)" and lt: "s_capa (objs w a) < needed"
    and ok: "needed + 1 \<noteq> 0"
    by simp_all
  from heap assms obtain old where wfs: "length (raw (objs w a)) = 30"
    "blocks w (s_data (objs w a)) = Some old"
    by (auto simp add: wf_heap)
  from capa_grow [OF heap lt ok wfs] obtain w' where
    r: "fio_str_capa_assert w (Some a) needed =
          Inr (\<lparr>capa = needed, len = s_len (objs w a), data = Blk (s_data (objs w a))\<rparr>, w')"
    by blast
  from grown_view(6) [OF heap lt ok assms r] r
  show "\<exists>w' old bs.
           fio_str_capa_assert w (Some a) needed =
             Inr (\<lparr>capa = needed, len = s_len (objs w a), data = Blk (s_data (objs w a))\<rparr>, w') \<and>
           blocks w (s_data (objs w a)) = Some old \<and>
           blocks w' (s_data (objs w a)) = Some bs \<and> length bs = unat needed + 1 \<and>
           take (unat (s_len (objs w a)) + 1) bs = take (unat (s_len (objs w a)) + 1) old"
    by blast
next
  assume h: "is_small (objs w a) \<and> needed \<le> 29"
  then have "needed < FIO_STR_SMALL_CAPA"
    by (simp add: FIO_STR_SMALL_CAPA_def word_less_nat_alt word_le_nat_alt)
  with h show "fio_str_capa_assert w (Some a) needed =
      Inr (\<lparr>capa = 29, len = small_len (objs w a), data = Emb a\<rparr>, w)"
    by (simp add: capa_small_noop)
next
  assume h: "is_small (objs w a) \<and> 29 < needed \<and> needed + 1 \<noteq> 0 \<and> brk w \<noteq> 0"
  then have sm: "is_small (objs w a)" and ok: "needed + 1 \<noteq> 0" "brk w \<noteq> 0"
    and big: "\<not> needed < FIO_STR_SMALL_CAPA"
    by (simp_all add: FIO_STR_SMALL_CAPA_def word_less_nat_alt)
  from sm assms have wfs: "length (raw (objs w a)) = 30"
    "small_len (objs w a) < FIO_STR_SMALL_CAPA"
    by (simp_all add: wf_small)
  from capa_promote [OF sm big ok wfs] obtain w' where
    r: "fio_str_capa_assert w (Some a) needed =
          Inr (\<lparr>capa = needed, len = small_len (objs w a), data = Blk (brk w)\<rparr>, w')"
    by blast
  from promoted_view(6) [OF sm big ok assms r] r
  show "\<exists>w' bs.
           fio_str_capa_assert w (Some a) needed =
             Inr (\<lparr>capa = needed, len = small_len (objs w a), data = Blk (brk w)\<rparr>, w') \<and>
           blocks w' (brk w) = Some bs \<and> length bs = unat needed + 1 \<and>
           take (unat (small_len (objs w a)) + 1) bs =
             take (unat (small_len (objs w a)) + 1) (raw (objs w a))"
    by blast
qed

text \<open>
  The four cases at work: on a fresh container (29 and 30 requested) and on the heap
  container of \<open>heap_world\<close> (40 and 41 requested).
\<close>

theorem capa_assert_cases_witness:
  "fio_str_capa_assert init_world (Some 0) 29 =
     Inr (\<lparr>capa = 29, len = 0, data = Emb 0\<rparr>, init_world) \<and>
   (\<exists>w'. fio_str_capa_assert init_world (Some 0) 30 =
     Inr (\<lparr>capa = 30, len = 0, data = Blk 1\<rparr>, w')) \<and>
   fio_str_capa_assert heap_world (Some 0) 40 =
     Inr (\<lparr>capa = 40, len = 3, data = Blk 1\<rparr>, heap_world) \<and>
   (\<exists>w'. fio_str_capa_assert heap_world (Some 0) 41 =
     Inr (\<lparr>capa = 41, len = 3, data = Blk 1\<rparr>, w'))"
proof -
  note i = init_world_facts
  note h = heap_world_fields
  have p1: "is_small (objs init_world 0) \<and> (29 :: size_t) \<le> 29"
    using i(2) by simp
  have p2: "is_small (objs init_world 0) \<and> (29 :: size_t) < 30 \<and> (30 :: size_t) + 1 \<noteq> 0 \<and>
      brk init_world \<noteq> 0"
    using i(2) by (simp add: i(4))
  have p3: "\<not> is_small (objs heap_world 0) \<and> (40 :: size_t) \<le> s_capa (objs heap_world 0)"
    using h(1) by (simp add: h(2))
  have p4: "\<not> is_small (objs heap_world 0) \<and> s_capa (objs heap_world 0) < (41 :: size_t) \<and>
      (41 :: size_t) + 1 \<noteq> 0"
    using h(1) by (simp add: h(2))
  from capa_assert_cases [OF i(1), of 29, THEN conjunct2, THEN conjunct2, THEN conjunct2,
      THEN conjunct1, rule_format, OF p1]
  have a: "fio_str_capa_assert init_world (Some 0) 29 =
      Inr (\<lparr>capa = 29, len = 0, data = Emb 0\<rparr>, init_world)"
    unfolding i(3) .
  from capa_assert_cases [OF i(1), of 30, THEN conjunct2, THEN conjunct2, THEN conjunct2,
      THEN conjunct2, rule_format, OF p2]
  have b: "\<exists>w'. fio_str_capa_assert init_world (Some 0) 30 =
      Inr (\<lparr>capa = 30, len = 0, data = Blk 1\<rparr>, w')"
    unfolding i(3,4) by blast
  from capa_assert_cases [OF heap_world_well_formed, of 40, THEN conjunct2, THEN conjunct1,
      rule_format, OF p3]
  have c: "fio_str_capa_assert heap_world (Some 0) 40 =
      Inr (\<lparr>capa = 40, len = 3, data = Blk 1\<rparr>, heap_world)"
    unfolding h(7) .
  from capa_assert_cases [OF heap_world_well_formed, of 41, THEN conjunct2, THEN conjunct2,
      THEN conjunct1, rule_format, OF p4]
  have d: "\<exists>w'. fio_str_capa_assert heap_world (Some 0) 41 =
      Inr (\<lparr>capa = 41, len = 3, data = Blk 1\<rparr>, w')"
    unfolding h(3,4) by blast
  from a b c d show ?thesis
    by (intro conjI)
qed

section \<open>Compaction twice is compaction once\<close>

text \<open>
  Claim C9. On a container that is embedded, or on the heap and well formed,
  \<^verbatim>\<open>fio_str_compact\<close> succeeds and a second call changes nothing more: the world
  after two calls is the world after one. Length, content and terminator are those
  before the call, and when the length is at most 29 the result is embedded with
  capacity 29.
\<close>

theorem compact_idempotent:
  assumes "is_small (objs w a) \<or> well_formed w a"
  shows "\<exists>w'. fio_str_compact w (Some a) = Inr w' \<and> fio_str_compact w' (Some a) = Inr w' \<and>
      run w (Some a) [Compact, Compact] = run w (Some a) [Compact] \<and>
      len (fio_str_state w' (Some a)) = len (fio_str_state w (Some a)) \<and>
      content w' (Some a) = content w (Some a) \<and>
      terminator w' (Some a) = terminator w (Some a) \<and>
      (len (fio_str_state w (Some a)) \<le> 29 \<longrightarrow>
         fio_str_state w' (Some a) =
           \<lparr>capa = 29, len = len (fio_str_state w (Some a)), data = Emb a\<rparr>)"
proof (cases "is_small (objs w a)")
  case True
  have "fio_str_compact w (Some a) = Inr w"
    using True by (rule compact_small)
  moreover have "fio_str_state w (Some a) =
      \<lparr>capa = 29, len = len (fio_str_state w (Some a)), data = Emb a\<rparr>"
    by (simp add: state_small [OF True])
  ultimately show ?thesis
    by simp
next
  case False
  with assms have wf: "well_formed w a"
    by simp
  from compact_view [OF wf] obtain w' where
    c: "fio_str_compact w (Some a) = Inr w'" "fio_str_compact w' (Some a) = Inr w'"
    and v: "len (fio_str_state w' (Some a)) = len (fio_str_state w (Some a))"
      "content w' (Some a) = content w (Some a)"
      "terminator w' (Some a) = terminator w (Some a)"
      "len (fio_str_state w (Some a)) \<le> 29 \<longrightarrow>
         fio_str_state w' (Some a) =
           \<lparr>capa = 29, len = len (fio_str_state w (Some a)), data = Emb a\<rparr>"
    by blast
  have "run w (Some a) [Compact, Compact] = run w (Some a) [Compact]"
    by (simp add: c)
  with c v show ?thesis
    by blast
qed

text \<open>
  On \<open>heap_world\<close> (length 3, capacity 40) the container comes back embedded.
\<close>

theorem compact_idempotent_witness:
  "\<exists>w'. fio_str_compact heap_world (Some 0) = Inr w' \<and>
     fio_str_compact w' (Some 0) = Inr w' \<and>
     fio_str_state w' (Some 0) = \<lparr>capa = 29, len = 3, data = Emb 0\<rparr> \<and>
     content w' (Some 0) = Inr [0x61, 0x62, 0x63]"
proof -
  from compact_idempotent [OF disjI2 [OF heap_world_well_formed]] obtain w' where
    c: "fio_str_compact heap_world (Some 0) = Inr w'" "fio_str_compact w' (Some 0) = Inr w'"
    and v: "content w' (Some 0) = content heap_world (Some 0)"
      "len (fio_str_state heap_world (Some 0)) \<le> 29 \<longrightarrow>
         fio_str_state w' (Some 0) =
           \<lparr>capa = 29, len = len (fio_str_state heap_world (Some 0)), data = Emb 0\<rparr>"
    by blast
  have "fio_str_state w' (Some 0) = \<lparr>capa = 29, len = 3, data = Emb 0\<rparr>"
    using v(2) unfolding heap_world_fields(7) by simp
  moreover have "content w' (Some 0) = Inr [0x61, 0x62, 0x63]"
    using v(1) unfolding heap_world_fields(8) .
  ultimately show ?thesis
    using c by blast
qed

section \<open>Frozen containers\<close>

text \<open>
  Claim C4, as stated, fails: neither \<^verbatim>\<open>fio_str_capa_assert\<close> nor
  \<^verbatim>\<open>fio_str_compact\<close> tests \<^verbatim>\<open>s->frozen\<close>. On a frozen fresh container
  \<^verbatim>\<open>fio_str_capa_assert(s, 100)\<close> changes the pointer and the capacity, and on a
  frozen heap container of length 3 \<^verbatim>\<open>fio_str_compact\<close> moves the string back into
  the container.
\<close>

theorem frozen_capa_assert_and_compact_alter_state:
  "(case run init_world (Some 0) [Freeze] of
      Inl e \<Rightarrow> False
    | Inr w \<Rightarrow>
        fio_str_state w (Some 0) = \<lparr>capa = 29, len = 0, data = Emb 0\<rparr> \<and>
        (case run w (Some 0) [Capa_assert 100] of
           Inl e \<Rightarrow> False
         | Inr w' \<Rightarrow> fio_str_state w' (Some 0) = \<lparr>capa = 100, len = 0, data = Blk 1\<rparr>)) \<and>
   (case run init_world (Some 0) [Resize 40, Resize 3, Freeze] of
      Inl e \<Rightarrow> False
    | Inr w \<Rightarrow>
        fio_str_state w (Some 0) = \<lparr>capa = 40, len = 3, data = Blk 1\<rparr> \<and>
        (case run w (Some 0) [Compact] of
           Inl e \<Rightarrow> False
         | Inr w' \<Rightarrow> fio_str_state w' (Some 0) = \<lparr>capa = 29, len = 3, data = Emb 0\<rparr>))"
  by code_simp

text \<open>
  Claim C4, amended. Once \<^verbatim>\<open>fio_str_freeze\<close> has been applied, any sequence of
  resize, write, concat, overwrite, insert and freeze calls leaves the whole world
  as it is, and the state, content and terminator are those before the freeze.
  \<^verbatim>\<open>fio_str_capa_assert\<close> and \<^verbatim>\<open>fio_str_compact\<close> are not gated by the flag: on a
  well-formed frozen container they may change pointer and capacity, and they keep
  the length, the content and the terminator (\<^verbatim>\<open>fio_str_compact\<close> also keeps the
  flag).
\<close>

theorem frozen_gates_content_not_capacity:
  "(list_all is_gated ops \<longrightarrow> run (fio_str_freeze w r) r ops = Inr (fio_str_freeze w r)) \<and>
   fio_str_state (fio_str_freeze w r) r = fio_str_state w r \<and>
   content (fio_str_freeze w r) r = content w r \<and>
   terminator (fio_str_freeze w r) r = terminator w r \<and>
   (well_formed w a \<longrightarrow>
      (\<forall>needed st w'.
          fio_str_capa_assert (fio_str_freeze w (Some a)) (Some a) needed = Inr (st, w') \<longrightarrow>
          len (fio_str_state w' (Some a)) = len (fio_str_state w (Some a)) \<and>
          content w' (Some a) = content w (Some a) \<and>
          terminator w' (Some a) = terminator w (Some a)) \<and>
      (\<exists>w'. fio_str_compact (fio_str_freeze w (Some a)) (Some a) = Inr w' \<and>
          frozen (objs w' a) \<noteq> 0 \<and>
          len (fio_str_state w' (Some a)) = len (fio_str_state w (Some a)) \<and>
          content w' (Some a) = content w (Some a) \<and>
          terminator w' (Some a) = terminator w (Some a)))"
proof (intro conjI impI allI)
  assume "list_all is_gated ops"
  then show "run (fio_str_freeze w r) r ops = Inr (fio_str_freeze w r)"
    by (rule gated_run)
next
  show "fio_str_state (fio_str_freeze w r) r = fio_str_state w r"
    "content (fio_str_freeze w r) r = content w r"
    "terminator (fio_str_freeze w r) r = terminator w r"
    by (rule freeze_frame)+
next
  fix needed st w'
  assume wf: "well_formed w a"
    and r: "fio_str_capa_assert (fio_str_freeze w (Some a)) (Some a) needed = Inr (st, w')"
  from wf have wf': "well_formed (fio_str_freeze w (Some a)) a"
    by (simp add: freeze_well_formed)
  note p = capa_preserves [OF wf' r]
  show "len (fio_str_state w' (Some a)) = len (fio_str_state w (Some a))"
    using p(1,2) by (simp add: freeze_frame)
  show "content w' (Some a) = content w (Some a)"
    using p(3) by (simp add: freeze_frame)
  show "terminator w' (Some a) = terminator w (Some a)"
    using p(4) by (simp add: freeze_frame)
next
  assume wf: "well_formed w a"
  then have wf': "well_formed (fio_str_freeze w (Some a)) a"
    by (simp add: freeze_well_formed)
  from compact_view [OF wf'] obtain w' where
    c: "fio_str_compact (fio_str_freeze w (Some a)) (Some a) = Inr w'"
    and v: "len (fio_str_state w' (Some a)) = len (fio_str_state (fio_str_freeze w (Some a)) (Some a))"
      "content w' (Some a) = content (fio_str_freeze w (Some a)) (Some a)"
      "terminator w' (Some a) = terminator (fio_str_freeze w (Some a)) (Some a)"
      "frozen (objs w' a) = frozen (objs (fio_str_freeze w (Some a)) a)"
    by blast
  have "frozen (objs w' a) \<noteq> 0"
    unfolding v(4) by (rule freeze_frozen)
  with c v(1-3) show "\<exists>w'. fio_str_compact (fio_str_freeze w (Some a)) (Some a) = Inr w' \<and>
          frozen (objs w' a) \<noteq> 0 \<and>
          len (fio_str_state w' (Some a)) = len (fio_str_state w (Some a)) \<and>
          content w' (Some a) = content w (Some a) \<and>
          terminator w' (Some a) = terminator w (Some a)"
    unfolding freeze_frame by blast
qed

text \<open>
  On the frozen \<open>heap_world\<close>: six gated calls change nothing, and compaction keeps
  \<open>abc\<close> and the flag.
\<close>

theorem frozen_gates_content_not_capacity_witness:
  "run (fio_str_freeze heap_world (Some 0)) (Some 0)
      [Resize 7, Write (Some [0x58]) 1, Concat (Some 1), Overwrite (Some [0x58]) 1 0,
       Insert (Some [0x58]) 1 0, Freeze] = Inr (fio_str_freeze heap_world (Some 0)) \<and>
   fio_str_state (fio_str_freeze heap_world (Some 0)) (Some 0) =
      \<lparr>capa = 40, len = 3, data = Blk 1\<rparr> \<and>
   (\<exists>w'. fio_str_compact (fio_str_freeze heap_world (Some 0)) (Some 0) = Inr w' \<and>
      frozen (objs w' 0) \<noteq> 0 \<and> content w' (Some 0) = Inr [0x61, 0x62, 0x63])"
proof -
  note t = frozen_gates_content_not_capacity [of
      "[Resize 7, Write (Some [0x58]) 1, Concat (Some 1), Overwrite (Some [0x58]) 1 0,
        Insert (Some [0x58]) 1 0, Freeze]" heap_world "Some 0" 0]
  have g: "list_all is_gated
      [Resize 7, Write (Some [0x58]) 1, Concat (Some 1), Overwrite (Some [0x58]) 1 0,
       Insert (Some [0x58]) 1 0, Freeze]"
    by simp
  from t [THEN conjunct1, rule_format, OF g]
  have a: "run (fio_str_freeze heap_world (Some 0)) (Some 0)
      [Resize 7, Write (Some [0x58]) 1, Concat (Some 1), Overwrite (Some [0x58]) 1 0,
       Insert (Some [0x58]) 1 0, Freeze] = Inr (fio_str_freeze heap_world (Some 0))" .
  from t [THEN conjunct2, THEN conjunct1]
  have b: "fio_str_state (fio_str_freeze heap_world (Some 0)) (Some 0) =
      \<lparr>capa = 40, len = 3, data = Blk 1\<rparr>"
    unfolding heap_world_fields(7) .
  from t [THEN conjunct2, THEN conjunct2, THEN conjunct2, THEN conjunct2, rule_format,
      OF heap_world_well_formed, THEN conjunct2]
  have c: "\<exists>w'. fio_str_compact (fio_str_freeze heap_world (Some 0)) (Some 0) = Inr w' \<and>
      frozen (objs w' 0) \<noteq> 0 \<and> content w' (Some 0) = Inr [0x61, 0x62, 0x63]"
    unfolding heap_world_fields(8) by blast
  from a b c show ?thesis
    by (intro conjI)
qed

text \<open>
  Claim C7. After \<^verbatim>\<open>fio_str_freeze\<close>, any finite sequence of write, insert and
  overwrite calls, whatever their arguments, ends in the world the freeze left:
  the state (capacity, length, pointer), the content, the terminator and every
  allocated block are those before the freeze.
\<close>

theorem frozen_content_calls_noop:
  assumes "list_all is_content_call ops"
  shows "run w r (Freeze # ops) = Inr (fio_str_freeze w r) \<and>
    fio_str_state (fio_str_freeze w r) r = fio_str_state w r \<and>
    content (fio_str_freeze w r) r = content w r \<and>
    terminator (fio_str_freeze w r) r = terminator w r \<and>
    blocks (fio_str_freeze w r) = blocks w"
proof -
  from assms have "list_all is_gated ops"
    by (induction ops) (simp_all add: content_call_gated)
  then have "run w r (Freeze # ops) = Inr (fio_str_freeze w r)"
    by (simp add: gated_run)
  moreover have "blocks (fio_str_freeze w r) = blocks w"
    by (cases r) (simp_all add: fio_str_freeze_def upd_def)
  ultimately show ?thesis
    by (simp add: freeze_frame)
qed

text \<open>
  The three calls of the source's own test, on the frozen \<open>heap_world\<close>.
\<close>

theorem frozen_content_calls_noop_witness:
  "run heap_world (Some 0)
      [Freeze, Write (Some (replicate 28 0x6d)) 28, Insert (Some (replicate 28 0x6d)) 28 (- 1),
       Overwrite (Some (replicate 28 0x6d)) 28 (- 1)] = Inr (fio_str_freeze heap_world (Some 0)) \<and>
   fio_str_state (fio_str_freeze heap_world (Some 0)) (Some 0) =
      \<lparr>capa = 40, len = 3, data = Blk 1\<rparr> \<and>
   content (fio_str_freeze heap_world (Some 0)) (Some 0) = Inr [0x61, 0x62, 0x63]"
proof -
  have g: "list_all is_content_call
      [Write (Some (replicate 28 0x6d)) 28, Insert (Some (replicate 28 0x6d)) 28 (- 1),
       Overwrite (Some (replicate 28 0x6d)) 28 (- 1)]"
    by simp
  from frozen_content_calls_noop [OF g, of heap_world "Some 0"]
  show ?thesis
    unfolding heap_world_fields(7,8) by blast
qed

section \<open>Null references\<close>

text \<open>
  Claim C8, as stated, fails for the scalar accessors and for destroy:
  \<^verbatim>\<open>fio_str_len\<close>, \<^verbatim>\<open>fio_str_capa\<close>, \<^verbatim>\<open>fio_str_data\<close> and \<^verbatim>\<open>fio_str_free\<close> read
  \<^verbatim>\<open>s->small\<close> without testing \<^verbatim>\<open>s\<close>.
\<close>

theorem null_accessors_fault:
  "fio_str_len init_world None = Inl NullDeref \<and>
   fio_str_capa init_world None = Inl NullDeref \<and>
   fio_str_data init_world None = Inl NullDeref \<and>
   fio_str_free init_world None = Inl NullDeref"
  by (simp add: fio_str_len_def fio_str_capa_def fio_str_data_def fio_str_free_def)

text \<open>
  Claim C8, amended. With a null container reference the state query and every
  operation that tests \<^verbatim>\<open>!s\<close> (capa_assert, resize, write, concat, overwrite,
  insert, compact, freeze) change nothing and return the zeroed snapshot; concat
  with a null source returns the destination's state unchanged. The accessors
  \<^verbatim>\<open>fio_str_len\<close>, \<^verbatim>\<open>fio_str_capa\<close>, \<^verbatim>\<open>fio_str_data\<close>, \<^verbatim>\<open>fio_str_bytes\<close> and
  \<^verbatim>\<open>fio_str_free\<close> need a non-null reference: they dereference it at once.
\<close>

theorem null_container_absorbed:
  "fio_str_state w None = \<lparr>capa = 0, len = 0, data = Null\<rparr> \<and>
   fio_str_capa_assert w None needed = Inr (\<lparr>capa = 0, len = 0, data = Null\<rparr>, w) \<and>
   fio_str_resize w None n = Inr (\<lparr>capa = 0, len = 0, data = Null\<rparr>, w) \<and>
   fio_str_write w None src src_len = Inr (\<lparr>capa = 0, len = 0, data = Null\<rparr>, w) \<and>
   fio_str_concat w None other = Inr (\<lparr>capa = 0, len = 0, data = Null\<rparr>, w) \<and>
   fio_str_concat w (Some a) None = Inr (fio_str_state w (Some a), w) \<and>
   fio_str_overwrite w None src src_len pos = Inr (\<lparr>capa = 0, len = 0, data = Null\<rparr>, w) \<and>
   fio_str_insert w None src src_len pos = Inr (\<lparr>capa = 0, len = 0, data = Null\<rparr>, w) \<and>
   fio_str_compact w None = Inr w \<and>
   fio_str_freeze w None = w \<and>
   fio_str_len w None = Inl NullDeref \<and>
   fio_str_capa w None = Inl NullDeref \<and>
   fio_str_data w None = Inl NullDeref \<and>
   fio_str_bytes w None = Inl NullDeref \<and>
   fio_str_free w None = Inl NullDeref"
  by (simp add: null_noop fio_str_state_def fio_str_concat_def fio_str_len_def fio_str_capa_def
      fio_str_data_def fio_str_bytes_def fio_str_free_def)

text \<open>
  Three of the calls, on \<open>init_world\<close>.
\<close>

theorem null_container_absorbed_witness:
  "fio_str_write init_world None (Some [0x58]) 1 =
     Inr (\<lparr>capa = 0, len = 0, data = Null\<rparr>, init_world) \<and>
   fio_str_insert init_world None (Some [0x58]) 1 0 =
     Inr (\<lparr>capa = 0, len = 0, data = Null\<rparr>, init_world) \<and>
   fio_str_compact init_world None = Inr init_world"
  using null_container_absorbed [of init_world 0 0 "Some [0x58]" 1 None 0 0]
  by blast

section \<open>A container with a clear discriminator and a null data pointer\<close>

lemma agree_same: "r = r' \<Longrightarrow> agree w w' r r'"
  by (auto simp add: agree_def split: sum.splits)

lemma agree_untouched: "agree w w' (Inr (st, w)) (Inr (st, w'))"
  by (simp add: agree_def)

lemma small_update_fields:
  "s_capa (s\<lparr>small := v\<rparr>) = s_capa s"
  "s_len (s\<lparr>small := v\<rparr>) = s_len s"
  "s_data (s\<lparr>small := v\<rparr>) = s_data s"
  "back_index (s\<lparr>small := v\<rparr>) pos = back_index s pos"
  by (simp_all add: s_capa_def s_len_def s_data_def back_index_def)

lemma as_embedded_simps:
  "objs (as_embedded a w) a = (objs w a)\<lparr>small := 1\<rparr>"
  "b \<noteq> a \<Longrightarrow> objs (as_embedded a w) b = objs w b"
  "blocks (as_embedded a w) = blocks w"
  "brk (as_embedded a w) = brk w"
  "fill (as_embedded a w) = fill w"
  by (simp_all add: as_embedded_def upd_def)

lemma upd_as_embedded:
  "upd a (\<lambda>s. s\<lparr>small := v\<rparr>) (as_embedded a w) = upd a (\<lambda>s. s\<lparr>small := v\<rparr>) w"
  "upd a (\<lambda>_. s') (as_embedded a w) = upd a (\<lambda>_. s') w"
  by (simp_all add: as_embedded_def upd_def)

lemma zero_like:
  assumes "small (objs w a) = 0" "s_data (objs w a) = 0"
  shows "is_small (objs w a)" "is_small (objs (as_embedded a w) a)"
    "small_len (objs w a) = 0" "small_len (objs (as_embedded a w) a) = 0"
    "fio_str_state w (Some a) = \<lparr>capa = 29, len = 0, data = Emb a\<rparr>"
    "fio_str_state (as_embedded a w) (Some a) = \<lparr>capa = 29, len = 0, data = Emb a\<rparr>"
    "fio_str_len w (Some a) = Inr 0" "fio_str_len (as_embedded a w) (Some a) = Inr 0"
proof -
  show s: "is_small (objs w a)" "is_small (objs (as_embedded a w) a)"
    using assms by (simp_all add: is_small_def as_embedded_simps)
  show l: "small_len (objs w a) = 0" "small_len (objs (as_embedded a w) a) = 0"
    using assms by (simp_all add: small_len_def as_embedded_simps)
  show "fio_str_state w (Some a) = \<lparr>capa = 29, len = 0, data = Emb a\<rparr>"
    "fio_str_state (as_embedded a w) (Some a) = \<lparr>capa = 29, len = 0, data = Emb a\<rparr>"
    using state_small [OF s(1)] state_small [OF s(2)] l by simp_all
  show "fio_str_len w (Some a) = Inr 0" "fio_str_len (as_embedded a w) (Some a) = Inr 0"
    using s l by (simp_all add: fio_str_len_def)
qed

lemma zero_capa_big:
  assumes "small (objs w a) = 0" "s_data (objs w a) = 0" "\<not> needed < FIO_STR_SMALL_CAPA"
  shows "fio_str_capa_assert w (Some a) needed =
    fio_str_capa_assert (as_embedded a w) (Some a) needed"
  using assms(3) zero_like(1-4) [OF assms(1,2)]
  by (simp add: fio_str_capa_assert_def malloc_def store_def upd_def as_embedded_def Let_def)

lemma zero_capa_small:
  assumes "small (objs w a) = 0" "s_data (objs w a) = 0" "needed < FIO_STR_SMALL_CAPA"
  shows "fio_str_capa_assert w (Some a) needed = Inr (\<lparr>capa = 29, len = 0, data = Emb a\<rparr>, w)"
    and "fio_str_capa_assert (as_embedded a w) (Some a) needed =
      Inr (\<lparr>capa = 29, len = 0, data = Emb a\<rparr>, as_embedded a w)"
  using assms(3) zero_like(1-4) [OF assms(1,2)]
  by (simp_all add: capa_small_noop)

lemma zero_resize:
  assumes "small (objs w a) = 0" "s_data (objs w a) = 0" "frozen (objs w a) = 0"
  shows "fio_str_resize w (Some a) n = fio_str_resize (as_embedded a w) (Some a) n"
proof (cases "n < FIO_STR_SMALL_CAPA")
  case True
  show ?thesis
    using assms(3) zero_like(1,2) [OF assms(1,2)]
    by (simp add: fio_str_resize_def zero_capa_small [OF assms(1,2) True] as_embedded_simps
        upd_as_embedded)
next
  case False
  show ?thesis
    using assms(3)
    by (simp add: fio_str_resize_def zero_capa_big [OF assms(1,2) False] as_embedded_simps)
qed

lemma zero_resize_agree:
  assumes "small (objs w a) = 0" "s_data (objs w a) = 0"
  shows "agree w (as_embedded a w) (fio_str_resize w (Some a) n)
    (fio_str_resize (as_embedded a w) (Some a) n)"
proof (cases "frozen (objs w a) = 0")
  case True
  then show ?thesis
    by (intro agree_same zero_resize [OF assms])
next
  case False
  then have "frozen (objs (as_embedded a w) a) \<noteq> 0"
    by (simp add: as_embedded_simps)
  then show ?thesis
    using False by (simp add: frozen_noop zero_like [OF assms] agree_untouched)
qed

lemma zero_write_agree:
  assumes "small (objs w a) = 0" "s_data (objs w a) = 0"
  shows "agree w (as_embedded a w) (fio_str_write w (Some a) src src_len)
    (fio_str_write (as_embedded a w) (Some a) src src_len)"
proof (cases "src = None \<or> src_len = 0 \<or> frozen (objs w a) \<noteq> 0")
  case True
  then have "fio_str_write w (Some a) src src_len = Inr (\<lparr>capa = 29, len = 0, data = Emb a\<rparr>, w)"
    "fio_str_write (as_embedded a w) (Some a) src src_len =
       Inr (\<lparr>capa = 29, len = 0, data = Emb a\<rparr>, as_embedded a w)"
    by (auto simp add: fio_str_write_def zero_like [OF assms] as_embedded_simps
        split: option.splits)
  then show ?thesis
    by (simp add: agree_untouched)
next
  case False
  then obtain buf where go: "src = Some buf" "src_len \<noteq> 0" "frozen (objs w a) = 0"
    by auto
  show ?thesis
    by (rule agree_same)
      (simp add: fio_str_write_def go zero_like [OF assms] as_embedded_simps
        zero_resize [OF assms go(3)])
qed

lemma zero_insert_agree:
  assumes "small (objs w a) = 0" "s_data (objs w a) = 0"
  shows "agree w (as_embedded a w) (fio_str_insert w (Some a) src src_len pos)
    (fio_str_insert (as_embedded a w) (Some a) src src_len pos)"
proof (cases "src = None \<or> src_len = 0 \<or> frozen (objs w a) \<noteq> 0")
  case True
  then have "fio_str_insert w (Some a) src src_len pos =
       Inr (\<lparr>capa = 29, len = 0, data = Emb a\<rparr>, w)"
    "fio_str_insert (as_embedded a w) (Some a) src src_len pos =
       Inr (\<lparr>capa = 29, len = 0, data = Emb a\<rparr>, as_embedded a w)"
    by (auto simp add: fio_str_insert_def zero_like [OF assms] as_embedded_simps
        split: option.splits)
  then show ?thesis
    by (simp add: agree_untouched)
next
  case False
  then obtain buf where go: "src = Some buf" "src_len \<noteq> 0" "frozen (objs w a) = 0"
    by auto
  show ?thesis
    by (rule agree_same)
      (simp add: fio_str_insert_def go zero_like [OF assms] as_embedded_simps
        small_update_fields zero_resize [OF assms go(3)])
qed

lemma zero_overwrite_agree:
  assumes "small (objs w a) = 0" "s_data (objs w a) = 0"
  shows "agree w (as_embedded a w) (fio_str_overwrite w (Some a) src src_len pos)
    (fio_str_overwrite (as_embedded a w) (Some a) src src_len pos)"
proof (cases "src = None \<or> src_len = 0 \<or> frozen (objs w a) \<noteq> 0")
  case True
  then have "fio_str_overwrite w (Some a) src src_len pos =
       Inr (\<lparr>capa = 29, len = 0, data = Emb a\<rparr>, w)"
    "fio_str_overwrite (as_embedded a w) (Some a) src src_len pos =
       Inr (\<lparr>capa = 29, len = 0, data = Emb a\<rparr>, as_embedded a w)"
    by (auto simp add: fio_str_overwrite_def zero_like [OF assms] as_embedded_simps
        split: option.splits)
  then show ?thesis
    by (simp add: agree_untouched)
next
  case False
  then obtain buf where go: "src = Some buf" "src_len \<noteq> 0" "frozen (objs w a) = 0"
    by auto
  define rest where "rest = (\<lambda>r :: fault + (fio_str_state_s \<times> world).
      case r of
        Inl e \<Rightarrow> Inl e
      | Inr (state, w1) \<Rightarrow>
          (case memcpy_in w1 (data state) 0 buf src_len of
             Inl e \<Rightarrow> Inl e
           | Inr w2 \<Rightarrow>
               Inr (state,
                    if src_len > s_len (objs w2 a)
                    then upd a (set_len src_len) w2 else w2)))"
  have "fio_str_overwrite w (Some a) src src_len pos = rest (fio_str_resize w (Some a) src_len)"
    using go(2)
    by (auto simp add: fio_str_overwrite_def go(1,3) zero_like [OF assms] rest_def word_gt_0
        Let_def split: sum.splits prod.splits)
  moreover have "fio_str_overwrite (as_embedded a w) (Some a) src src_len pos =
      rest (fio_str_resize (as_embedded a w) (Some a) src_len)"
    using go(2)
    by (auto simp add: fio_str_overwrite_def go(1,3) zero_like [OF assms] as_embedded_simps
        small_update_fields rest_def word_gt_0 Let_def split: sum.splits prod.splits)
  ultimately show ?thesis
    by (intro agree_same) (simp add: zero_resize [OF assms go(3)])
qed

lemma zero_concat_agree:
  assumes "small (objs w a) = 0" "s_data (objs w a) = 0"
  shows "agree w (as_embedded a w) (fio_str_concat w (Some a) other)
    (fio_str_concat (as_embedded a w) (Some a) other)"
proof -
  have src: "fio_str_state (as_embedded a w) other = fio_str_state w other"
  proof (cases other)
    case None
    then show ?thesis by (simp add: fio_str_state_def)
  next
    case (Some b)
    show ?thesis
    proof (cases "b = a")
      case True
      then show ?thesis by (simp add: Some zero_like [OF assms])
    next
      case False
      then show ?thesis by (simp add: Some fio_str_state_def as_embedded_simps)
    qed
  qed
  show ?thesis
  proof (cases "other = None \<or> frozen (objs w a) \<noteq> 0 \<or> len (fio_str_state w other) = 0")
    case True
    then have "fio_str_concat w (Some a) other = Inr (\<lparr>capa = 29, len = 0, data = Emb a\<rparr>, w)"
      "fio_str_concat (as_embedded a w) (Some a) other =
         Inr (\<lparr>capa = 29, len = 0, data = Emb a\<rparr>, as_embedded a w)"
      by (auto simp add: fio_str_concat_def src zero_like [OF assms] as_embedded_simps Let_def)
    then show ?thesis
      by (simp add: agree_untouched)
  next
    case False
    then have go: "other \<noteq> None" "frozen (objs w a) = 0" "len (fio_str_state w other) \<noteq> 0"
      by auto
    show ?thesis
      by (rule agree_same)
        (simp add: fio_str_concat_def src go zero_like [OF assms] as_embedded_simps
          zero_resize [OF assms go(2)] Let_def)
  qed
qed

lemma zero_capa_agree:
  assumes "small (objs w a) = 0" "s_data (objs w a) = 0"
  shows "agree w (as_embedded a w) (fio_str_capa_assert w (Some a) needed)
    (fio_str_capa_assert (as_embedded a w) (Some a) needed)"
proof (cases "needed < FIO_STR_SMALL_CAPA")
  case True
  show ?thesis
    by (simp add: zero_capa_small [OF assms True] agree_untouched)
next
  case False
  show ?thesis
    by (intro agree_same zero_capa_big [OF assms False])
qed

lemma zero_world_facts:
  "small (objs zero_world 0) = 0" "s_data (objs zero_world 0) = 0"
  "frozen (objs zero_world 0) = 0"
  by (simp_all add: zero_world_def fields_zeroed)

text \<open>
  Claim C10. A container whose discriminator byte is 0 and whose \<^verbatim>\<open>data\<close> is null
  (whatever its other bytes) reports capacity 29, length 0 and the embedded
  pointer, as the same container with the discriminator set to 1 does; and
  capa_assert, resize, write, concat, overwrite and insert agree on the two: the
  same fault, or the same snapshot and the same resulting world (or no change at
  all, when the call is a no-op). \<^verbatim>\<open>fio_str_compact\<close> leaves it alone and
  \<^verbatim>\<open>fio_str_free\<close> reinitialises it without freeing anything.
\<close>

theorem zero_struct_is_empty_embedded:
  assumes "small (objs w a) = 0" "s_data (objs w a) = 0"
  shows
    "fio_str_state w (Some a) = \<lparr>capa = 29, len = 0, data = Emb a\<rparr> \<and>
     fio_str_state (as_embedded a w) (Some a) = fio_str_state w (Some a) \<and>
     fio_str_len w (Some a) = Inr 0 \<and>
     fio_str_capa w (Some a) = Inr 29 \<and>
     fio_str_data w (Some a) = Inr (Emb a) \<and>
     agree w (as_embedded a w) (fio_str_capa_assert w (Some a) needed)
       (fio_str_capa_assert (as_embedded a w) (Some a) needed) \<and>
     agree w (as_embedded a w) (fio_str_resize w (Some a) n)
       (fio_str_resize (as_embedded a w) (Some a) n) \<and>
     agree w (as_embedded a w) (fio_str_write w (Some a) src src_len)
       (fio_str_write (as_embedded a w) (Some a) src src_len) \<and>
     agree w (as_embedded a w) (fio_str_concat w (Some a) other)
       (fio_str_concat (as_embedded a w) (Some a) other) \<and>
     agree w (as_embedded a w) (fio_str_overwrite w (Some a) src src_len pos)
       (fio_str_overwrite (as_embedded a w) (Some a) src src_len pos) \<and>
     agree w (as_embedded a w) (fio_str_insert w (Some a) src src_len pos)
       (fio_str_insert (as_embedded a w) (Some a) src src_len pos) \<and>
     (frozen (objs w a) = 0 \<longrightarrow>
        fio_str_resize w (Some a) n = fio_str_resize (as_embedded a w) (Some a) n) \<and>
     fio_str_compact w (Some a) = Inr w \<and>
     fio_str_free w (Some a) = fio_str_free (as_embedded a w) (Some a)"
proof -
  note z = zero_like [OF assms]
  have "fio_str_capa w (Some a) = Inr 29"
    using z(1) by (simp add: fio_str_capa_def FIO_STR_SMALL_CAPA_def)
  moreover have "fio_str_data w (Some a) = Inr (Emb a)"
    using z(1) by (simp add: fio_str_data_def)
  moreover have "fio_str_compact w (Some a) = Inr w"
    using z(1) by (rule compact_small)
  moreover have "fio_str_free w (Some a) = fio_str_free (as_embedded a w) (Some a)"
    using assms by (simp add: fio_str_free_def free_def as_embedded_def upd_def)
  moreover have "frozen (objs w a) = 0 \<longrightarrow>
      fio_str_resize w (Some a) n = fio_str_resize (as_embedded a w) (Some a) n"
    using zero_resize [OF assms] by blast
  ultimately show ?thesis
    using z(5-7) zero_capa_agree [OF assms] zero_resize_agree [OF assms]
      zero_write_agree [OF assms] zero_concat_agree [OF assms] zero_overwrite_agree [OF assms]
      zero_insert_agree [OF assms]
    by (intro conjI) simp_all
qed

text \<open>
  On the all-zero container of \<open>zero_world\<close>, which with its discriminator set is
  \<^verbatim>\<open>FIO_STR_INIT\<close>.
\<close>

theorem zero_struct_is_empty_embedded_witness:
  "fio_str_state zero_world (Some 0) = \<lparr>capa = 29, len = 0, data = Emb 0\<rparr> \<and>
   fio_str_len zero_world (Some 0) = Inr 0 \<and>
   objs (as_embedded 0 zero_world) 0 = FIO_STR_INIT \<and>
   fio_str_resize zero_world (Some 0) 5 = fio_str_resize (as_embedded 0 zero_world) (Some 0) 5 \<and>
   agree zero_world (as_embedded 0 zero_world)
     (fio_str_write zero_world (Some 0) (Some [0x58]) 1)
     (fio_str_write (as_embedded 0 zero_world) (Some 0) (Some [0x58]) 1)"
proof -
  note t = zero_struct_is_empty_embedded [OF zero_world_facts(1,2),
      of 0 5 "Some [0x58]" 1 None 0]
  have i: "objs (as_embedded 0 zero_world) 0 = FIO_STR_INIT"
    by (simp add: as_embedded_simps zero_world_def FIO_STR_INIT_def)
  have r: "fio_str_resize zero_world (Some 0) 5 =
      fio_str_resize (as_embedded 0 zero_world) (Some 0) 5"
    using t zero_world_facts(3) by blast
  from t i r show ?thesis
    by blast
qed

section \<open>Defects the claims run into\<close>

text \<open>
  Claim C1 (length \<open>\<le>\<close> capacity and a zero byte at \<open>pointer[length]\<close> after every
  sequence of public operations). \<^verbatim>\<open>fio_str_overwrite\<close> ends with
  \<^verbatim>\<open>if (pos + src_len > s->len) s->len = pos + src_len;\<close> whatever the
  representation. On an embedded container the field \<^verbatim>\<open>len\<close> is bytes 14 to 21 of
  the embedded string: overwriting a fresh container with 14 bytes at position 0
  stores 14 in the byte at index 14, where the terminator of the 14-byte string was
  just written.
\<close>

theorem overwrite_breaks_terminator:
  "invariant init_world (Some 0) \<and>
   (case run init_world (Some 0) [Overwrite (Some (replicate 14 0x61)) 14 0] of
      Inl e \<Rightarrow> False
    | Inr w \<Rightarrow>
        fio_str_state w (Some 0) = \<lparr>capa = 29, len = 14, data = Emb 0\<rparr> \<and>
        terminator w (Some 0) = Inr [14] \<and> \<not> invariant w (Some 0))"
  by code_simp

theorem overwrite_breaks_terminator_witness:
  "\<exists>w. run init_world (Some 0) [Overwrite (Some (replicate 14 0x61)) 14 0] = Inr w \<and>
       terminator w (Some 0) = Inr [14]"
  using overwrite_breaks_terminator by (auto split: sum.splits)

text \<open>
  Claim C2 (insert yields \<open>c[0..p) @ b @ c[p..n)\<close>). \<^verbatim>\<open>fio_str_insert\<close> moves
  \<^verbatim>\<open>src_len\<close> bytes, not the \<open>n - p\<close> bytes of the tail. Inserting \<open>X\<close> at 0 into
  \<open>abc\<close> gives \<open>X a c NUL\<close>, embedded or on the heap; inserting 16 bytes into a fresh
  embedded container moves 16 bytes to offsets 16 to 31 of a 30-byte area.
\<close>

theorem insert_loses_tail:
  "(case run init_world (Some 0) [Write (Some [0x61, 0x62, 0x63]) 3, Insert (Some [0x58]) 1 0] of
      Inl e \<Rightarrow> False
    | Inr w \<Rightarrow> content w (Some 0) = Inr [0x58, 0x61, 0x63, 0]) \<and>
   (case run init_world (Some 0)
           [Capa_assert 40, Write (Some [0x61, 0x62, 0x63]) 3, Insert (Some [0x58]) 1 0] of
      Inl e \<Rightarrow> False
    | Inr w \<Rightarrow> content w (Some 0) = Inr [0x58, 0x61, 0x63, 0]) \<and>
   (case run init_world (Some 0) [Insert (Some (replicate 16 0x58)) 16 0] of
      Inl e \<Rightarrow> e = OutOfBounds
    | Inr w \<Rightarrow> False)"
  by code_simp

theorem insert_loses_tail_witness:
  "\<exists>w. run init_world (Some 0)
          [Write (Some [0x61, 0x62, 0x63]) 3, Insert (Some [0x58]) 1 0] = Inr w \<and>
       content w (Some 0) \<noteq> Inr [0x58, 0x61, 0x62, 0x63]"
  using insert_loses_tail by (auto split: sum.splits)

text \<open>
  Claim C5 (overwrite: a negative position is resolved as \<open>p + length + 1\<close>).
  \<^verbatim>\<open>fio_str_overwrite\<close> adds the field \<^verbatim>\<open>s->len\<close>, which on an embedded
  container is not the length: on the embedded string \<open>Worl\<close> (length 4) position
  -1 resolves to 0, and overwriting with \<open>X\<close> gives \<open>Xorl\<close> of length 4, not
  \<open>WorlX\<close> of length 5.
\<close>

theorem overwrite_negative_pos_embedded:
  "(case run init_world (Some 0) [Write (Some [0x57, 0x6f, 0x72, 0x6c]) 4] of
      Inl e \<Rightarrow> False
    | Inr w \<Rightarrow> content w (Some 0) = Inr [0x57, 0x6f, 0x72, 0x6c] \<and>
        fio_str_len w (Some 0) = Inr 4 \<and> back_index (objs w 0) (- 1) = 0) \<and>
   (case run init_world (Some 0)
           [Write (Some [0x57, 0x6f, 0x72, 0x6c]) 4, Overwrite (Some [0x58]) 1 (- 1)] of
      Inl e \<Rightarrow> False
    | Inr w \<Rightarrow> content w (Some 0) = Inr [0x58, 0x6f, 0x72, 0x6c] \<and>
        fio_str_len w (Some 0) = Inr 4)"
  by code_simp

theorem overwrite_negative_pos_embedded_witness:
  "\<exists>w. run init_world (Some 0)
          [Write (Some [0x57, 0x6f, 0x72, 0x6c]) 4, Overwrite (Some [0x58]) 1 (- 1)] = Inr w \<and>
       content w (Some 0) \<noteq> Inr [0x57, 0x6f, 0x72, 0x6c, 0x58]"
  using overwrite_negative_pos_embedded by (auto split: sum.splits)

text \<open>
  Claim C6 (\<open>insert(s, b, -1)\<close> leaves what \<open>write(s, b)\<close> leaves). On the embedded
  string \<open>Worl\<close>, \<^verbatim>\<open>fio_str_insert\<close> at -1 resolves the position to 0 through
  \<^verbatim>\<open>s->len\<close> and moves one byte: the content is \<open>X W r l NUL\<close>, where
  \<^verbatim>\<open>fio_str_write\<close> gives \<open>WorlX\<close>.
\<close>

theorem insert_minus_one_is_not_write:
  "(case run init_world (Some 0)
           [Write (Some [0x57, 0x6f, 0x72, 0x6c]) 4, Insert (Some [0x58]) 1 (- 1)] of
      Inl e \<Rightarrow> False
    | Inr w \<Rightarrow> content w (Some 0) = Inr [0x58, 0x57, 0x72, 0x6c, 0]) \<and>
   (case run init_world (Some 0)
           [Write (Some [0x57, 0x6f, 0x72, 0x6c]) 4, Write (Some [0x58]) 1] of
      Inl e \<Rightarrow> False
    | Inr w \<Rightarrow> content w (Some 0) = Inr [0x57, 0x6f, 0x72, 0x6c, 0x58])"
  by code_simp

theorem insert_minus_one_is_not_write_witness:
  "\<exists>w w'. run init_world (Some 0)
          [Write (Some [0x57, 0x6f, 0x72, 0x6c]) 4, Insert (Some [0x58]) 1 (- 1)] = Inr w \<and>
       run init_world (Some 0)
          [Write (Some [0x57, 0x6f, 0x72, 0x6c]) 4, Write (Some [0x58]) 1] = Inr w' \<and>
       content w (Some 0) \<noteq> content w' (Some 0)"
  using insert_minus_one_is_not_write by (auto split: sum.splits)

end
